theory Spec2Isabelle
  imports Complex_Main "HOL-Library.Sublist"
begin

section \<open>Station endpoints and the transport-kind check\<close>

text \<open>
  A station configuration as the monitors receive it. In the JavaScript every field may
  be missing (\<open>undefined\<close>/\<open>null\<close>), which is \<open>None\<close> here; the database rows use
  \<open>ipAddress\<close>, the monitor's own configuration uses \<open>ip\<close>.
\<close>

record stationConfig =
  name :: "string option"
  ipAddress :: "string option"
  ip :: "string option"
  scene :: "string option"

text \<open>JavaScript truthiness of a value that is a string or missing.\<close>

definition truthy :: "string option \<Rightarrow> bool" where
  "truthy s = (case s of None \<Rightarrow> False | Some v \<Rightarrow> v \<noteq> [])"

text \<open>\<open>a || b\<close> on such values.\<close>

definition js_or :: "string option \<Rightarrow> string option \<Rightarrow> string option" where
  "js_or a b = (if truthy a then a else b)"

text \<open>\<open>String.prototype.startsWith\<close> and \<open>String.prototype.includes\<close> (named \<open>includesStr\<close>: \<open>includes\<close> is reserved).\<close>

fun startsWith :: "string \<Rightarrow> string \<Rightarrow> bool" where
  "startsWith s [] = True"
| "startsWith [] (p # ps) = False"
| "startsWith (c # cs) (p # ps) = (c = p \<and> startsWith cs ps)"

fun includesStr :: "string \<Rightarrow> string \<Rightarrow> bool" where
  "includesStr [] p = startsWith [] p"
| "includesStr (c # cs) p = (startsWith (c # cs) p \<or> includesStr cs p)"

text \<open>
  \<open>ApiDataFetcher.isApiStation\<close>:
  \<^verbatim>\<open>
  const ipAddress = stationConfig.ipAddress || stationConfig.ip;
  return ipAddress && ipAddress.startsWith('http://') && ipAddress.includes('/data');
  \<close>
  The result is used as a condition only, so the model returns its truthiness.
\<close>

definition endpoint :: "stationConfig \<Rightarrow> string option" where
  "endpoint stationConfig = js_or (ipAddress stationConfig) (ip stationConfig)"

definition isApiStation :: "stationConfig \<Rightarrow> bool" where
  "isApiStation stationConfig =
     (case endpoint stationConfig of
        None \<Rightarrow> False
      | Some address \<Rightarrow>
          address \<noteq> [] \<and> startsWith address ''http://'' \<and> includesStr address ''/data'')"

text \<open>
  \<open>MonitorController.initialize\<close> creates an \<open>ApiDataFetcher\<close> for a station that passes
  the check and a \<open>StationMonitor\<close> (WebSocket) for every other station.
\<close>

datatype monitorKind = ApiMonitor | WebSocketMonitor

definition createMonitor :: "stationConfig \<Rightarrow> monitorKind" where
  "createMonitor stationConfig =
     (if isApiStation stationConfig then ApiMonitor else WebSocketMonitor)"

text \<open>
  \<open>StationAnalyzer.analyzeStations\<close> puts each station row into one of three lists. It
  passes \<open>name\<close>, \<open>ipAddress\<close> and \<open>scene\<close> of the row to the check (there is no
  \<open>ip\<close>), and asks for a scene only of the stations that fail it.
\<close>

datatype category = ApiStation | WebSocketStation | IncompleteStation

definition analyzeStation :: "stationConfig \<Rightarrow> category" where
  "analyzeStation station =
     (if isApiStation (station\<lparr>ip := None\<rparr>)
      then (if truthy (name station) \<and> truthy (ipAddress station)
            then ApiStation else IncompleteStation)
      else (if truthy (name station) \<and> truthy (ipAddress station) \<and> truthy (scene station)
            then WebSocketStation else IncompleteStation))"

text \<open>
  \<open>fetchApiData\<close> chooses its client from the protocol of the parsed URL:
  \<^verbatim>\<open>const client = url.protocol === 'https:' ? https : http;\<close>
  and the port \<open>url.port || (url.protocol === 'https:' ? 443 : 80)\<close>.
\<close>

datatype httpClient = Http | Https

definition fetchClient :: "string \<Rightarrow> httpClient" where
  "fetchClient protocol = (if protocol = ''https:'' then Https else Http)"

definition fetchPort :: "string \<Rightarrow> nat option \<Rightarrow> nat" where
  "fetchPort protocol port =
     (case port of Some p \<Rightarrow> p | None \<Rightarrow> if protocol = ''https:'' then 443 else 80)"

section \<open>JavaScript values and objects\<close>

text \<open>
  The values a telemetry frame carries after \<open>JSON.parse\<close>. Numbers are IEEE doubles in
  the program and reals here. \<open>JObject\<close> stands for any nested object or array. The
  monitors never look inside one, but \<open>parseFloat\<close> converts its argument to a string
  first: what is kept of a nested value is the string that this conversion gives, or
  \<open>None\<close> when the conversion throws a \<open>TypeError\<close> (as it does for an object with an
  own property \<open>toString\<close>, which after \<open>JSON.parse\<close> is never a function).
\<close>

datatype jsval = JNumber real | JString string | JBool bool | JNull | JObject "string option"

definition isObject :: "jsval \<Rightarrow> bool" where
  "isObject value = (case value of JObject s \<Rightarrow> True | _ \<Rightarrow> False)"

text \<open>\<open>typeof value === "object"\<close>, which is also true of \<open>null\<close>.\<close>

definition typeofObject :: "jsval \<Rightarrow> bool" where
  "typeofObject value = (value = JNull \<or> isObject value)"

text \<open>\<open>parseFloat(value)\<close> throws on a value that cannot be converted to a string.\<close>

definition throwsOnConversion :: "jsval \<Rightarrow> bool" where
  "throwsOnConversion value = (value = JObject None)"

text \<open>
  \<open>a !== b\<close> where \<open>a\<close> is a property that may be missing (\<open>undefined\<close>, here
  \<open>None\<close>) and \<open>b\<close> a freshly parsed value. Objects are compared by reference, and
  every frame is parsed into new objects, so an object is never equal to a stored one.
\<close>

definition strictNotEqual :: "jsval option \<Rightarrow> jsval \<Rightarrow> bool" where
  "strictNotEqual a b =
     (case a of None \<Rightarrow> True | Some x \<Rightarrow> x \<noteq> b \<or> isObject x \<or> isObject b)"

text \<open>
  A plain object is the list of its own properties in the order \<open>Object.entries\<close> and
  \<open>forEach\<close> visit them: keys that are array indices (canonical decimal strings below
  \<open>2^32 - 1\<close>) first, in ascending numeric order, then all other keys in the order of
  their creation.
\<close>

type_synonym 'a jsobject = "(string \<times> 'a) list"

definition isDigit :: "char \<Rightarrow> bool" where
  "isDigit c = (48 \<le> (of_char c :: nat) \<and> (of_char c :: nat) \<le> 57)"

definition digitsValue :: "string \<Rightarrow> nat" where
  "digitsValue s = foldl (\<lambda>n c. 10 * n + ((of_char c :: nat) - 48)) 0 s"

definition arrayIndex :: "string \<Rightarrow> nat option" where
  "arrayIndex s =
     (if s \<noteq> [] \<and> list_all isDigit s \<and> (s = ''0'' \<or> hd s \<noteq> CHR ''0'')
         \<and> digitsValue s < 4294967295
      then Some (digitsValue s) else None)"

definition hasOwnProperty :: "'a jsobject \<Rightarrow> string \<Rightarrow> bool" where
  "hasOwnProperty obj k = (map_of obj k \<noteq> None)"

text \<open>
  The program asks \<open>obj.hasOwnProperty(k)\<close>, which is a method call: the method is found
  on the prototype unless \<open>obj\<close> has an own property named \<open>hasOwnProperty\<close>. In an
  object that comes from \<open>JSON.parse\<close> such a property is never a function, so the call
  throws a \<open>TypeError\<close>.
\<close>

definition shadowsHasOwnProperty :: "'a jsobject \<Rightarrow> bool" where
  "shadowsHasOwnProperty obj = hasOwnProperty obj ''hasOwnProperty''"

text \<open>An object all of whose values can be converted to a string.\<close>

definition convertible :: "jsval jsobject \<Rightarrow> bool" where
  "convertible obj = (\<not> list_ex throwsOnConversion (map snd obj))"

fun insertProp :: "string \<Rightarrow> 'a \<Rightarrow> 'a jsobject \<Rightarrow> 'a jsobject" where
  "insertProp k v [] = [(k, v)]"
| "insertProp k v ((k', v') # es) =
     (case arrayIndex k of
        None \<Rightarrow> (k', v') # insertProp k v es
      | Some i \<Rightarrow>
          (case arrayIndex k' of
             None \<Rightarrow> (k, v) # (k', v') # es
           | Some j \<Rightarrow> if i < j then (k, v) # (k', v') # es else (k', v') # insertProp k v es))"

text \<open>\<open>obj[k] = v\<close>: an existing property keeps its place, a new one is inserted.\<close>

definition setProp :: "'a jsobject \<Rightarrow> string \<Rightarrow> 'a \<Rightarrow> 'a jsobject" where
  "setProp obj k v =
     (if hasOwnProperty obj k
      then map (\<lambda>(k', v'). if k' = k then (k', v) else (k', v')) obj
      else insertProp k v obj)"

text \<open>An object literal \<open>{k1: v1, k2: v2, ...}\<close>, properties given as written.\<close>

definition objectLiteral :: "(string \<times> 'a) list \<Rightarrow> 'a jsobject" where
  "objectLiteral props = foldl (\<lambda>obj (k, v). setProp obj k v) [] props"

text \<open>\<open>Number.prototype.toString\<close> on an integer object ID.\<close>

definition digitChar :: "nat \<Rightarrow> char" where
  "digitChar d = ''0123456789'' ! d"

function natToString :: "nat \<Rightarrow> string" where
  "natToString n =
     (if n < 10 then [digitChar n] else natToString (n div 10) @ [digitChar (n mod 10)])"
  by pat_completeness auto
termination
  by (relation "measure id") auto

declare natToString.simps [simp del]

definition toString :: "int \<Rightarrow> string" where
  "toString i = (if i < 0 then CHR ''-'' # natToString (nat (- i)) else natToString (nat i))"

text \<open>
  The built-in functions \<open>parseFloat\<close> and \<open>parseInt\<close> are parameters of the model:
  the result \<open>None\<close> is \<open>NaN\<close>. Nothing below depends on which strings they accept.
  \<open>parseFloat\<close> is asked for its result only on a value whose conversion does not throw.
\<close>

record builtins =
  parseFloat :: "jsval \<Rightarrow> real option"
  parseInt :: "string \<Rightarrow> int option"

text \<open>
  An instance for the examples, which use numbers, \<open>null\<close>, strings of decimal digits
  and the string \<open>bad\<close> only: on these \<open>parseFloat\<close> gives the number, \<open>NaN\<close>,
  the number written and \<open>NaN\<close>.
\<close>

definition exampleBuiltins :: builtins where
  "exampleBuiltins =
     \<lparr>parseFloat = (\<lambda>v. case v of
                JNumber x \<Rightarrow> Some x
              | JString s \<Rightarrow> if s \<noteq> [] \<and> list_all isDigit s then Some (real (digitsValue s)) else None
              | _ \<Rightarrow> None),
      parseInt = (\<lambda>s. if s \<noteq> [] \<and> list_all isDigit s then Some (int (digitsValue s)) else None)\<rparr>"

section \<open>DatabaseService: from monitor data to a row\<close>

text \<open>
  What the code below can throw: the \<open>TypeError\<close> of a call of something that is not a
  function, the error of \<open>createPowerReading\<close> for a missing station id or timestamp,
  and whatever the store throws.
\<close>

datatype jsError = TypeError | MissingRequiredFields | DatabaseError

text \<open>A column of a row of \<open>power_readings\<close> holds a number or \<open>null\<close>.\<close>

datatype dbval = Null | Num real

text \<open>\<open>isNaN(value) ? null : value\<close>\<close>

definition nullIfNaN :: "real option \<Rightarrow> dbval" where
  "nullIfNaN value = (case value of None \<Rightarrow> Null | Some x \<Rightarrow> Num x)"

text \<open>
  An argument of \<open>transformPowerData\<close> and \<open>validatePowerData\<close> is an object or, for
  the guard \<open>!powerData || typeof powerData !== "object"\<close>, anything else.
\<close>

datatype powerData = NotAnObject | Object "jsval jsobject"

text \<open>The three tables of \<open>transformPowerData\<close>, as the source writes them.\<close>

definition activePowerMap :: "string jsobject" where
  "activePowerMap = objectLiteral
     [(''8684'', ''activePower1''),
      (''8685'', ''activePower2''),
      (''8686'', ''activePower3''),
      (''8687'', ''activePower4''),
      (''8688'', ''activePower5''),
      (''8689'', ''activePower6'')]"

definition muxPowerMap :: "string jsobject" where
  "muxPowerMap = objectLiteral
     [(''18069'', ''muxPower1''),
      (''18070'', ''muxPower2''),
      (''73909'', ''muxPower3''),
      (''73910'', ''muxPower4''),
      (''75428'', ''muxPower5''),
      (''75429'', ''muxPower6''),
      (''224272'', ''muxPower5''),
      (''18053'', ''muxPower6''),
      (''75432'', ''muxPower5''),
      (''75441'', ''muxPower5''),
      (''75483'', ''muxPower5''),
      (''75484'', ''muxPower6''),
      (''75519'', ''muxPower6'')]"

definition directFields :: "string list" where
  "directFields =
     [''activePower1'', ''activePower2'', ''activePower3'',
      ''activePower4'', ''activePower5'', ''activePower6'',
      ''muxPower1'', ''muxPower2'', ''muxPower3'',
      ''muxPower4'', ''muxPower5'', ''muxPower6'']"

text \<open>
  The body shared by the three loops (the source's \<open>id\<close> is \<open>oid\<close> throughout, \<open>id\<close>
  being the identity function of HOL):
  \<^verbatim>\<open>
  if (powerData.hasOwnProperty(id)) {
    const value = parseFloat(powerData[id]);
    dbData[field] = isNaN(value) ? null : value;
  }
  \<close>
  \<open>dbData\<close> is only spread into the row, so a map from column to value is enough.
\<close>

definition transformEntry ::
  "builtins \<Rightarrow> jsval jsobject \<Rightarrow> (string \<rightharpoonup> dbval) \<Rightarrow> string \<times> string \<Rightarrow> (string \<rightharpoonup> dbval)" where
  "transformEntry js powerData dbData = (\<lambda>(oid, field).
     (case map_of powerData oid of
        None \<Rightarrow> dbData
      | Some raw \<Rightarrow> dbData(field \<mapsto> nullIfNaN (parseFloat js raw))))"

text \<open>
  The three loops, on an object whose \<open>hasOwnProperty\<close> can be called and whose values
  can be converted.
\<close>

definition transformLoops :: "builtins \<Rightarrow> jsval jsobject \<Rightarrow> (string \<rightharpoonup> dbval)" where
  "transformLoops js obj =
     (let dbData = Map.empty;
          dbData = foldl (transformEntry js obj) dbData activePowerMap;
          dbData = foldl (transformEntry js obj) dbData muxPowerMap;
          dbData = foldl (transformEntry js obj) dbData (map (\<lambda>field. (field, field)) directFields)
      in dbData)"

text \<open>
  The pairs (key, column) in the order in which the three loops of \<open>transformPowerData\<close>
  visit them; a later pair overwrites what an earlier one wrote into the same column.
\<close>

definition tableOrder :: "(string \<times> string) list" where
  "tableOrder = activePowerMap @ muxPowerMap @ map (\<lambda>field. (field, field)) directFields"

text \<open>
  The values that the loops hand to \<open>parseFloat\<close>: those of the keys of the tables that
  the object has.
\<close>

definition parsedValues :: "jsval jsobject \<Rightarrow> jsval list" where
  "parsedValues obj =
     concat (map (\<lambda>(k, field). case map_of obj k of None \<Rightarrow> [] | Some raw \<Rightarrow> [raw]) tableOrder)"

text \<open>
  \<open>transformPowerData\<close>. What is not an object gives the empty row. The first turn of the
  first loop (the table of active power is not empty) calls \<open>powerData.hasOwnProperty\<close>,
  so an object that shadows the method makes the function throw at once; and a turn that
  hands \<open>parseFloat\<close> a value that cannot be converted throws as well. Nothing is
  returned then. On every other object the three loops run to their end.
\<close>

definition transformPowerData :: "builtins \<Rightarrow> powerData \<Rightarrow> jsError + (string \<rightharpoonup> dbval)" where
  "transformPowerData js powerData =
     (case powerData of
        NotAnObject \<Rightarrow> Inr Map.empty
      | Object obj \<Rightarrow>
          if shadowsHasOwnProperty obj \<or> list_ex throwsOnConversion (parsedValues obj)
          then Inl TypeError else Inr (transformLoops js obj))"

text \<open>
  \<open>validatePowerData\<close>. A warning is kept as a value instead of its message text.
  \<open>Math.random()\<close> is the sequence \<open>random\<close> of the draws made during the call, read
  at a counter.
\<close>

datatype warning =
    InvalidNumeric string jsval
  | ActivePowerOutOfRange string real
  | MuxPowerOutOfRange string real

datatype validationError = MustBeAnObject

record validation =
  isValid :: bool
  errors :: "validationError list"
  warnings :: "warning list"

definition rangeWarnings :: "builtins \<Rightarrow> string \<Rightarrow> real \<Rightarrow> warning list" where
  "rangeWarnings js oid numValue =
     (case parseInt js oid of
        None \<Rightarrow> []
      | Some idNum \<Rightarrow>
          if idNum \<ge> 8684 \<and> idNum \<le> 8689
          then (if numValue < 0 \<or> numValue > 100000 then [ActivePowerOutOfRange oid numValue] else [])
          else if idNum \<in> set [18069, 18070, 73909, 73910, 75428, 75429]
          then (if numValue < 0 \<or> numValue > 1000000000 then [MuxPowerOutOfRange oid numValue] else [])
          else [])"

fun validateEntries ::
  "builtins \<Rightarrow> (nat \<Rightarrow> real) \<Rightarrow> jsval jsobject \<Rightarrow> nat \<Rightarrow> warning list \<Rightarrow> warning list" where
  "validateEntries js random [] n ws = ws"
| "validateEntries js random ((oid, value) # es) n ws =
     (if typeofObject value then validateEntries js random es n ws
      else (case parseFloat js value of
              None \<Rightarrow>
                if random n < 0.1
                then validateEntries js random es (Suc n) (ws @ [InvalidNumeric oid value])
                else validateEntries js random es (Suc n) ws
            | Some numValue \<Rightarrow>
                validateEntries js random es n (ws @ rangeWarnings js oid numValue)))"

definition validatePowerData :: "builtins \<Rightarrow> (nat \<Rightarrow> real) \<Rightarrow> powerData \<Rightarrow> validation" where
  "validatePowerData js random powerData =
     (case powerData of
        NotAnObject \<Rightarrow> \<lparr>isValid = False, errors = [MustBeAnObject], warnings = []\<rparr>
      | Object obj \<Rightarrow>
          \<lparr>isValid = True, errors = [], warnings = validateEntries js random obj 0 []\<rparr>)"

text \<open>
  The number of draws \<open>validatePowerData\<close> makes on a list of entries: one for each
  value that is not of type object and does not parse. The draw made for an entry is the
  one numbered by the draws made on the entries before it.
\<close>

definition draws :: "builtins \<Rightarrow> jsval jsobject \<Rightarrow> nat" where
  "draws js es = length (filter (\<lambda>(oid, value). \<not> typeofObject value \<and> parseFloat js value = None) es)"

text \<open>
  \<open>createPowerReading\<close>, as the value its promise is settled with. The store (Prisma
  behind \<open>executeOperation\<close>) is reachable and takes the row, or it throws; which of the
  two happens is the input \<open>dbOk\<close>. A timestamp made by \<open>new Date()\<close> is always a
  valid date, so only its absence is an error of its own. An error of
  \<open>transformPowerData\<close> is passed on.
\<close>

record readingData =
  stationId :: string
  timestamp :: "int option"
  powerData :: powerData

record powerReading =
  rowStationId :: string
  rowTimestamp :: int
  rowData :: "string \<rightharpoonup> dbval"

definition createPowerReading :: "builtins \<Rightarrow> bool \<Rightarrow> readingData \<Rightarrow> jsError + powerReading" where
  "createPowerReading js dbOk reading =
     (if \<not> dbOk then Inl DatabaseError
      else (case timestamp reading of
              None \<Rightarrow> Inl MissingRequiredFields
            | Some t \<Rightarrow>
                if stationId reading = [] then Inl MissingRequiredFields
                else (case transformPowerData js (powerData reading) of
                        Inl e \<Rightarrow> Inl e
                      | Inr dbData \<Rightarrow>
                          Inr \<lparr>rowStationId = stationId reading, rowTimestamp = t,
                               rowData = dbData\<rparr>)))"

section \<open>StationMonitor: the data buffer and the throttled save\<close>

text \<open>
  \<open>saveToDatabase\<close> is an \<open>async\<close> function that \<open>updateData\<close> calls without
  awaiting it. The call runs up to \<^verbatim>\<open>await this.databaseService.createPowerReading(readingData)\<close>
  and is suspended there, holding its constant \<open>now\<close> and the \<open>readingData\<close> it has
  built; the rest of its body runs when the promise is settled, and other frames may be
  handled in between.
\<close>

record suspendedSave =
  saveNow :: int
  saveReading :: readingData

text \<open>
  The part of a \<open>StationMonitor\<close> (and, with \<open>meterData\<close> for \<open>dataBuffer\<close>, of the
  \<open>ChiangMaiClient\<close>) that handles telemetry. \<open>monitoredObjects\<close> is the list of object
  IDs registered for the station: \<open>objectIds\<close> of the station's rows of monitored
  objects, or the default list. \<open>suspended\<close> are the calls of \<open>saveToDatabase\<close> that
  wait for the store, oldest first, and \<open>powerReadings\<close> is the table, in the order in
  which the writes were confirmed. The two readings of the clock while one frame is handled
  (\<open>lastUpdate\<close> and \<open>now\<close>) are one value.
\<close>

record stationMonitor =
  monitoredObjects :: "int list"
  dataBuffer :: "jsval jsobject"
  lastUpdate :: "int option"
  lastDbSave :: "int option"
  databaseService :: bool
  stationRecord :: "string option"
  suspended :: "suspendedSave list"
  powerReadings :: "powerReading list"

text \<open>
  What the outside contributes while one frame is handled: the \<open>sync\<close> object of the
  notification, the clock (milliseconds) and the random draws.
\<close>

record frame =
  syncData :: "jsval jsobject"
  now :: int
  random :: "nat \<Rightarrow> real"

definition dbSaveInterval :: int where
  "dbSaveInterval = 10000"

text \<open>
  \<open>getStationMonitoredObjects\<close> turns the station's rows \<open>(objectType, objectId)\<close>,
  ordered by \<open>objectType\<close>, into \<open>objectMap\<close> and \<open>objectIds\<close>;
  \<open>loadMonitoredObjects\<close> keeps \<open>objectIds\<close> when there is at least one row and the
  default list otherwise. \<open>objectMap\<close> is used for display labels only.
\<close>

definition objectIds :: "(string \<times> int) list \<Rightarrow> int list" where
  "objectIds rows = map snd rows"

definition loadMonitoredObjects :: "int list \<Rightarrow> (string \<times> int) list \<Rightarrow> int list" where
  "loadMonitoredObjects defaults rows = (if length rows > 0 then objectIds rows else defaults)"

text \<open>
  The test at the head of \<open>saveToDatabase\<close>:
  \<^verbatim>\<open>this.lastDbSave && (now - this.lastDbSave) < this.dbSaveInterval\<close>
\<close>

definition tooSoon :: "frame \<Rightarrow> stationMonitor \<Rightarrow> bool" where
  "tooSoon f m =
     (case lastDbSave m of None \<Rightarrow> False | Some saved \<Rightarrow> now f - saved < dbSaveInterval)"

text \<open>
  \<open>saveToDatabase\<close> up to its \<open>await\<close>: the throttle test, \<open>readingData\<close> with a copy of
  the buffer, the validation, and the call of \<open>createPowerReading\<close>, at which the call is
  suspended. Everything is inside one \<open>try\<close>; a missing station record (a \<open>TypeError\<close>
  at \<open>this.stationRecord.id\<close>) is caught and logged.
\<close>

definition saveToDatabase :: "builtins \<Rightarrow> frame \<Rightarrow> stationMonitor \<Rightarrow> stationMonitor" where
  "saveToDatabase js f m =
     (if tooSoon f m then m
      else (case stationRecord m of
              None \<Rightarrow> m
            | Some sid \<Rightarrow>
                (let readingData = \<lparr>stationId = sid, timestamp = lastUpdate m,
                                     powerData = Object (dataBuffer m)\<rparr>;
                     validation = validatePowerData js (random f) (Object (dataBuffer m))
                 in if \<not> isValid validation then m
                    else m\<lparr>suspended := suspended m @
                             [\<lparr>saveNow = now f, saveReading = readingData\<rparr>]\<rparr>)))"

text \<open>
  The rest of \<open>saveToDatabase\<close>, run when the promise of the suspended call number \<open>k\<close>
  is settled. When it is fulfilled the store has the row, and only now
  \<^verbatim>\<open>this.lastDbSave = now\<close> is done, with the \<open>now\<close> of the call. When it is rejected the
  \<open>catch\<close> block logs the error. (For some messages it also sets a timer to initialise
  the station record again; that timer is not part of the model.)
\<close>

definition resumeSave :: "builtins \<Rightarrow> nat \<Rightarrow> bool \<Rightarrow> stationMonitor \<Rightarrow> stationMonitor" where
  "resumeSave js k dbOk m =
     (if k < length (suspended m)
      then (let save = suspended m ! k;
                m = m\<lparr>suspended := take k (suspended m) @ drop (Suc k) (suspended m)\<rparr>
            in case createPowerReading js dbOk (saveReading save) of
                 Inl e \<Rightarrow> m
               | Inr row \<Rightarrow> m\<lparr>powerReadings := powerReadings m @ [row],
                                lastDbSave := Some (saveNow save)\<rparr>)
      else m)"

text \<open>
  One turn of the \<open>forEach\<close> of \<open>updateData\<close>:
  \<^verbatim>\<open>
  if (syncData.hasOwnProperty(id.toString())) {
    const newValue = syncData[id.toString()];
    if (this.dataBuffer[id] !== newValue) { this.dataBuffer[id] = newValue; hasChanges = true; }
  }
  \<close>
  The call \<open>syncData.hasOwnProperty(...)\<close> throws when \<open>syncData\<close> shadows the method.
  \<open>updateData\<close> below makes this test before the first turn, so that a turn is taken
  only on a \<open>syncData\<close> whose method can be called, where the call is a lookup.
\<close>

definition updateObject ::
  "jsval jsobject \<Rightarrow> jsval jsobject \<times> bool \<Rightarrow> int \<Rightarrow> jsval jsobject \<times> bool" where
  "updateObject sync = (\<lambda>(buffer, hasChanges) oid.
     (case map_of sync (toString oid) of
        None \<Rightarrow> (buffer, hasChanges)
      | Some newValue \<Rightarrow>
          if strictNotEqual (map_of buffer (toString oid)) newValue
          then (setProp buffer (toString oid) newValue, True)
          else (buffer, hasChanges)))"

text \<open>The whole \<open>forEach\<close> over the monitored objects: the new buffer and \<open>hasChanges\<close>.\<close>

definition applySync :: "jsval jsobject \<Rightarrow> stationMonitor \<Rightarrow> jsval jsobject \<times> bool" where
  "applySync sync m = foldl (updateObject sync) (dataBuffer m, False) (monitoredObjects m)"

text \<open>
  \<open>displayData\<close> prints every entry of the buffer, formatting its value with
  \<open>parseFloat(value)\<close>: it throws when the buffer holds a value that cannot be
  converted. What it prints is not part of the model, and the display labels are taken
  to be strings, as the program sets them.
\<close>

definition displayData :: "stationMonitor \<Rightarrow> jsError option" where
  "displayData m = (if convertible (dataBuffer m) then None else Some TypeError)"

text \<open>
  \<open>updateData\<close> returns or throws, and has changed the monitor in both cases. It sets
  \<open>lastUpdate\<close> first. The first turn of the \<open>forEach\<close> calls
  \<open>syncData.hasOwnProperty\<close>: when there is a monitored object and \<open>syncData\<close> shadows
  the method, the \<open>TypeError\<close> leaves \<open>updateData\<close> before the buffer is touched.
  Otherwise the buffer is updated and, after a change, the buffer is displayed and then
  the save is started; an error of \<open>displayData\<close> leaves \<open>updateData\<close> before the
  save.
\<close>

datatype outcome = Returned stationMonitor | Thrown jsError stationMonitor

definition monitorOf :: "outcome \<Rightarrow> stationMonitor" where
  "monitorOf out = (case out of Returned m \<Rightarrow> m | Thrown e m \<Rightarrow> m)"

definition updateData :: "builtins \<Rightarrow> frame \<Rightarrow> stationMonitor \<Rightarrow> outcome" where
  "updateData js f m =
     (let m = m\<lparr>lastUpdate := Some (now f)\<rparr>
      in if monitoredObjects m \<noteq> [] \<and> shadowsHasOwnProperty (syncData f)
         then Thrown TypeError m
         else (let (buffer, hasChanges) = applySync (syncData f) m;
                   m = m\<lparr>dataBuffer := buffer\<rparr>
               in if hasChanges
                  then (case displayData m of
                          Some e \<Rightarrow> Thrown e m
                        | None \<Rightarrow>
                            if databaseService m \<and> stationRecord m \<noteq> None
                            then Returned (saveToDatabase js f m) else Returned m)
                  else Returned m))"

text \<open>
  What happens to a monitor that is monitoring: a notification with a \<open>sync\<close> object
  arrives and is handled by the listener of \<open>startMonitoring\<close>, whose \<open>catch\<close> block
  drops whatever \<open>updateData\<close> throws; or the promise of the suspended save number \<open>k\<close>
  is fulfilled (\<open>True\<close>) or rejected.
\<close>

datatype monitorEvent = Notification frame | Settled nat bool

definition onMonitorEvent :: "builtins \<Rightarrow> stationMonitor \<Rightarrow> monitorEvent \<Rightarrow> stationMonitor" where
  "onMonitorEvent js m ev =
     (case ev of
        Notification f \<Rightarrow> monitorOf (updateData js f m)
      | Settled k dbOk \<Rightarrow> resumeSave js k dbOk m)"

definition runMonitor :: "builtins \<Rightarrow> monitorEvent list \<Rightarrow> stationMonitor \<Rightarrow> stationMonitor" where
  "runMonitor js evs m = foldl (onMonitorEvent js) m evs"

text \<open>
  Two values for stating what a changed frame leads to: the call of \<open>saveToDatabase\<close>
  that is suspended once the frame \<open>f\<close> has been handled by the monitor \<open>m\<close> of the
  station \<open>sid\<close>, and the row the store has once that call's promise is fulfilled. Both
  carry the buffer as the frame has left it.
\<close>

definition startedSave :: "string \<Rightarrow> frame \<Rightarrow> stationMonitor \<Rightarrow> suspendedSave" where
  "startedSave sid f m =
     \<lparr>saveNow = now f,
      saveReading = \<lparr>stationId = sid, timestamp = Some (now f),
                     powerData = Object (fst (applySync (syncData f) m))\<rparr>\<rparr>"

definition writtenRow :: "builtins \<Rightarrow> string \<Rightarrow> frame \<Rightarrow> stationMonitor \<Rightarrow> powerReading" where
  "writtenRow js sid f m =
     \<lparr>rowStationId = sid, rowTimestamp = now f,
      rowData = transformLoops js (fst (applySync (syncData f) m))\<rparr>"

text \<open>A list of settlements \<open>(k, dbOk)\<close> as events.\<close>

definition settlements :: "(nat \<times> bool) list \<Rightarrow> monitorEvent list" where
  "settlements ks = map (\<lambda>(k, dbOk). Settled k dbOk) ks"

text \<open>A sequence of random draws that are all the same.\<close>

definition constantDraws :: "real \<Rightarrow> nat \<Rightarrow> real" where
  "constantDraws x n = x"

section \<open>The control channel: messages, handshake and reconnection\<close>

text \<open>
  An inbound message after \<open>JSON.parse\<close>, as far as the monitors look at it: \<open>msg.id\<close>
  when it is a number, \<open>msg.result\<close> (absent, a boolean, an object with a \<open>USID\<close>
  string, or anything else), \<open>msg.cached === true\<close>, and \<open>msg.notification\<close> with its
  \<open>provider\<close> and \<open>value.sync\<close>. A \<open>USID\<close> is taken to be a string, as the
  program takes it (\<open>this.USID.substring\<close>).
\<close>

datatype result = NoResult | ResultBool bool | ResultSession string | ResultOther

record notification =
  provider :: string
  valueSync :: "jsval jsobject option"

record message =
  msgId :: "int option"
  result :: result
  cached :: bool
  notification :: "notification option"

text \<open>
  The predicates the two clients wait with. \<open>StationMonitor.initializeSession\<close> uses
  \<^verbatim>\<open>msg.id === 0 && msg.result?.USID\<close>, \<^verbatim>\<open>msg.id === k && msg.result === true\<close> and
  \<^verbatim>\<open>msg.id === k\<close>; \<open>ChiangMaiClient\<close> uses \<open>handleWSMessage\<close>,
  \<open>handleWSMessage1\<close> and \<open>handleWSMessage2\<close> (\<^verbatim>\<open>msg.id === k && msg.cached === true\<close>).
\<close>

datatype expect = SessionToken | ResultTrue | IdOnly | CachedTrue

fun validator :: "expect \<Rightarrow> nat \<Rightarrow> message \<Rightarrow> bool" where
  "validator SessionToken k msg =
     (msgId msg = Some (int k) \<and> (case result msg of ResultSession usid \<Rightarrow> usid \<noteq> [] | _ \<Rightarrow> False))"
| "validator ResultTrue k msg = (msgId msg = Some (int k) \<and> result msg = ResultBool True)"
| "validator IdOnly k msg = (msgId msg = Some (int k))"
| "validator CachedTrue k msg = (msgId msg = Some (int k) \<and> cached msg)"

text \<open>
  One step of the handshake: the request's id and \<open>method\<close>, the predicate for its response,
  and whether the request carries \<open>this.USID\<close> and the list of monitored objects.
\<close>

record step =
  stepId :: nat
  rpcMethod :: string
  expect :: expect
  withUSID :: bool
  withObjects :: bool

record protocol =
  steps :: "step list"
  messageTimeout :: "nat option"
  maxReconnectAttempts :: nat

definition stationMonitorProtocol :: protocol where
  "stationMonitorProtocol =
     \<lparr>steps =
        [\<lparr>stepId = 0, rpcMethod = ''comet.restoreSession'', expect = SessionToken,
          withUSID = False, withObjects = False\<rparr>,
         \<lparr>stepId = 1, rpcMethod = ''comet.subscribeNotification'', expect = ResultTrue,
          withUSID = True, withObjects = False\<rparr>,
         \<lparr>stepId = 2, rpcMethod = ''ScriptEngine.setUpdateRate'', expect = ResultTrue,
          withUSID = True, withObjects = False\<rparr>,
         \<lparr>stepId = 3, rpcMethod = ''ScriptEngine.loadScriptInfo'', expect = IdOnly,
          withUSID = False, withObjects = False\<rparr>,
         \<lparr>stepId = 4, rpcMethod = ''ScriptEngine.loadDashboards'', expect = IdOnly,
          withUSID = False, withObjects = False\<rparr>,
         \<lparr>stepId = 5, rpcMethod = ''ScriptEngine.loadScriptInfo'', expect = IdOnly,
          withUSID = False, withObjects = False\<rparr>,
         \<lparr>stepId = 6, rpcMethod = ''ScriptEngine.loadScene'', expect = IdOnly,
          withUSID = False, withObjects = False\<rparr>,
         \<lparr>stepId = 7, rpcMethod = ''ScriptEngine.registerActiveObjects'', expect = ResultTrue,
          withUSID = True, withObjects = True\<rparr>],
      messageTimeout = Some 5000,
      maxReconnectAttempts = 5\<rparr>"

definition chiangMaiProtocol :: protocol where
  "chiangMaiProtocol =
     \<lparr>steps =
        [\<lparr>stepId = 0, rpcMethod = ''comet.signIn'', expect = SessionToken,
          withUSID = False, withObjects = False\<rparr>,
         \<lparr>stepId = 1, rpcMethod = ''comet.subscribeNotification'', expect = ResultTrue,
          withUSID = True, withObjects = False\<rparr>,
         \<lparr>stepId = 2, rpcMethod = ''ScriptEngine.setUpdateRate'', expect = ResultTrue,
          withUSID = True, withObjects = False\<rparr>,
         \<lparr>stepId = 3, rpcMethod = ''ScriptEngine.loadScriptInfo'', expect = CachedTrue,
          withUSID = False, withObjects = False\<rparr>,
         \<lparr>stepId = 4, rpcMethod = ''ScriptEngine.loadDashboards'', expect = CachedTrue,
          withUSID = False, withObjects = False\<rparr>,
         \<lparr>stepId = 5, rpcMethod = ''ScriptEngine.loadScriptInfo'', expect = CachedTrue,
          withUSID = False, withObjects = False\<rparr>,
         \<lparr>stepId = 6, rpcMethod = ''ScriptEngine.loadScene'', expect = CachedTrue,
          withUSID = False, withObjects = False\<rparr>,
         \<lparr>stepId = 7, rpcMethod = ''ScriptEngine.registerActiveObjects'', expect = ResultTrue,
          withUSID = True, withObjects = True\<rparr>],
      messageTimeout = None,
      maxReconnectAttempts = 10\<rparr>"

record request =
  reqId :: nat
  reqMethod :: string
  reqUSID :: "string option"
  reqObjects :: "int list option"

text \<open>
  Where the promise chain \<open>connect().then(initializeSession)\<close> stands. \<open>Sending\<close> and
  \<open>Waiting\<close> carry the steps still to do, the current one first: in \<open>Sending\<close> the
  one-second timer of \<open>sendData\<close> runs, in \<open>Waiting\<close> the listener of \<open>waitForMessage\<close>
  is registered. \<open>Failed\<close> is a rejected chain: the error has been thrown to the caller,
  who catches and logs it.
\<close>

datatype failure = ConnectionTimeout | SocketError | WebSocketNotOpen | MessageTimeout

datatype phase = Idle | Connecting | Sending "step list" | Waiting "step list" | Monitoring
  | Failed failure

text \<open>
  The connection side of a monitor. One chain is followed at a time, the one begun by the
  latest call of \<open>connect()\<close>: \<open>sent\<close> are the requests it has written to the socket and
  \<open>answered\<close> the steps whose response it has observed. \<open>reconnectTimers\<close> counts the
  timers set by \<open>handleReconnect\<close> that have not fired yet, \<open>sockets\<close> the calls of
  \<open>connect()\<close>, each of which creates a WebSocket.
\<close>

record connection =
  isConnected :: bool
  reconnectAttempts :: nat
  USID :: "string option"
  phase :: phase
  reconnectTimers :: nat
  sockets :: nat
  sent :: "request list"
  answered :: "nat list"

definition newMonitor :: connection where
  "newMonitor = \<lparr>isConnected = False, reconnectAttempts = 0, USID = None, phase = Idle,
                  reconnectTimers = 0, sockets = 0, sent = [], answered = []\<rparr>"

text \<open>
  What the event loop can deliver to a monitor: a call of \<open>connect()\<close> by the controller;
  the socket's \<open>open\<close>, \<open>error\<close> and \<open>close\<close>; the connection timer; the timer set by
  \<open>handleReconnect\<close>; the timer of \<open>sendData\<close>, with \<open>ws.readyState === OPEN\<close> at that
  moment; a \<open>message\<close> (\<open>None\<close> when it is not JSON); the timer of \<open>waitForMessage\<close>.
\<close>

datatype event = ConnectCall | Open | Error | Close | ConnectTimer | ReconnectTimer
  | SendTimer bool | Message "message option" | MessageTimer

definition connect :: "connection \<Rightarrow> connection" where
  "connect c = c\<lparr>phase := Connecting, sockets := sockets c + 1, sent := [], answered := []\<rparr>"

text \<open>
  \<open>handleReconnect\<close>, the same test in both clients (\<open>attempts < max\<close> to go on,
  \<open>attempts >= max\<close> to stop):
  \<^verbatim>\<open>
  if (this.reconnectAttempts < config.maxReconnectAttempts) {
    this.reconnectAttempts++;
    setTimeout(() => { this.connect().then(() => this.initializeSession()).catch(...) },
               config.reconnectInterval);
  } else { console.error(...) }
  \<close>
\<close>

definition handleReconnect :: "protocol \<Rightarrow> connection \<Rightarrow> connection" where
  "handleReconnect p c =
     (if reconnectAttempts c < maxReconnectAttempts p
      then c\<lparr>reconnectAttempts := reconnectAttempts c + 1,
              reconnectTimers := reconnectTimers c + 1\<rparr>
      else c)"

definition buildRequest :: "int list \<Rightarrow> connection \<Rightarrow> step \<Rightarrow> request" where
  "buildRequest objects c st =
     \<lparr>reqId = stepId st, reqMethod = rpcMethod st,
      reqUSID = (if withUSID st then USID c else None),
      reqObjects = (if withObjects st then Some (objects @ [-1]) else None)\<rparr>"

text \<open>After the response of a step: the next step, or \<open>startMonitoring\<close> after the last.\<close>

definition continue :: "step list \<Rightarrow> phase" where
  "continue rest = (if rest = [] then Monitoring else Sending rest)"

definition sessionToken :: "message \<Rightarrow> string option" where
  "sessionToken msg = (case result msg of ResultSession usid \<Rightarrow> Some usid | _ \<Rightarrow> None)"

fun onEvent :: "protocol \<Rightarrow> int list \<Rightarrow> connection \<Rightarrow> event \<Rightarrow> connection" where
  "onEvent p objects c ConnectCall = connect c"
| "onEvent p objects c ReconnectTimer =
     (if reconnectTimers c > 0 then connect (c\<lparr>reconnectTimers := reconnectTimers c - 1\<rparr>) else c)"
| "onEvent p objects c Open =
     (let c = c\<lparr>isConnected := True, reconnectAttempts := 0\<rparr>
      in if phase c = Connecting then c\<lparr>phase := continue (steps p)\<rparr> else c)"
| "onEvent p objects c Error =
     (if phase c = Connecting then c\<lparr>phase := Failed SocketError\<rparr> else c)"
| "onEvent p objects c ConnectTimer =
     (if phase c = Connecting then c\<lparr>phase := Failed ConnectionTimeout\<rparr> else c)"
| "onEvent p objects c Close = handleReconnect p (c\<lparr>isConnected := False\<rparr>)"
| "onEvent p objects c (SendTimer ready) =
     (case phase c of
        Sending (st # rest) \<Rightarrow>
          if ready
          then c\<lparr>sent := sent c @ [buildRequest objects c st], phase := Waiting (st # rest)\<rparr>
          else c\<lparr>phase := Failed WebSocketNotOpen\<rparr>
      | _ \<Rightarrow> c)"
| "onEvent p objects c (Message None) = c"
| "onEvent p objects c (Message (Some msg)) =
     (case phase c of
        Waiting (st # rest) \<Rightarrow>
          if validator (expect st) (stepId st) msg
          then c\<lparr>answered := answered c @ [stepId st],
                 USID := (if expect st = SessionToken then sessionToken msg else USID c),
                 phase := continue rest\<rparr>
          else c
      | _ \<Rightarrow> c)"
| "onEvent p objects c MessageTimer =
     (case phase c of
        Waiting todo \<Rightarrow> if messageTimeout p \<noteq> None then c\<lparr>phase := Failed MessageTimeout\<rparr> else c
      | _ \<Rightarrow> c)"

definition runEvents :: "protocol \<Rightarrow> int list \<Rightarrow> connection \<Rightarrow> event list \<Rightarrow> connection" where
  "runEvents p objects c es = foldl (onEvent p objects) c es"

text \<open>
  \<open>startMonitoring\<close>. Once the handshake is through, a message is read for its
  telemetry only: the \<open>sync\<close> object of a notification of the provider
  \<open>ScriptEngine\<close>, when it is there, goes to \<open>updateData\<close>; every other message is
  ignored, and so is an error thrown by \<open>updateData\<close>. The frame \<open>f\<close> brings the
  clock and the draws.
\<close>

definition telemetry :: "message \<Rightarrow> jsval jsobject option" where
  "telemetry msg =
     (case notification msg of
        None \<Rightarrow> None
      | Some n \<Rightarrow> if provider n = ''ScriptEngine'' then valueSync n else None)"

definition startMonitoring :: "builtins \<Rightarrow> message \<Rightarrow> frame \<Rightarrow> stationMonitor \<Rightarrow> stationMonitor" where
  "startMonitoring js msg f m =
     (case telemetry msg of
        None \<Rightarrow> m
      | Some sync \<Rightarrow> monitorOf (updateData js (f\<lparr>syncData := sync\<rparr>) m))"

section \<open>ApiDataFetcher: polling an HTTP station\<close>

text \<open>
  The fields of an \<open>ApiDataFetcher\<close> that the polling loop reads and writes, and the
  lines it writes to the console. \<open>fetchInterval\<close> tells whether the interval timer is
  set.
\<close>

datatype apiLog = TooManyErrors nat | FetchFailed nat | MaxErrorsReached | ProcessFailed
  | InvalidApiData | FetchingStopped

record apiDataFetcher =
  isRunning :: bool
  fetchInterval :: bool
  errorCount :: nat
  lastFetch :: "int option"
  lastData :: "(string \<rightharpoonup> dbval) option"
  console :: "apiLog list"

definition maxErrors :: nat where
  "maxErrors = 5"

text \<open>
  One tick as the outside decides it: \<open>fetchApiData\<close> rejects or resolves with the parsed
  JSON, the clock, and whether the display or the save, which follow the assignment of
  \<open>lastData\<close> in the \<open>try\<close> block of \<open>processApiData\<close>, throw.
\<close>

datatype fetched = Rejected | Resolved powerData

record tick =
  fetched :: fetched
  clock :: int
  processThrows :: bool

text \<open>\<open>transformApiData\<close>: \<open>mux1..mux6\<close> to \<open>muxPower1..6\<close>, then \<open>power1..6\<close> to
  \<open>activePower1..6\<close>.\<close>

definition apiKeys :: "(string \<times> string) list" where
  "apiKeys =
     map (\<lambda>i. (''mux'' @ natToString i, ''muxPower'' @ natToString i)) [1, 2, 3, 4, 5, 6] @
     map (\<lambda>i. (''power'' @ natToString i, ''activePower'' @ natToString i)) [1, 2, 3, 4, 5, 6]"

definition transformApiData :: "builtins \<Rightarrow> jsval jsobject \<Rightarrow> (string \<rightharpoonup> dbval)" where
  "transformApiData js apiData = foldl (transformEntry js apiData) Map.empty apiKeys"

definition stop :: "apiDataFetcher \<Rightarrow> apiDataFetcher" where
  "stop a =
     (if \<not> isRunning a then a
      else a\<lparr>isRunning := False, fetchInterval := False, console := console a @ [FetchingStopped]\<rparr>)"

text \<open>
  \<open>processApiData\<close>. \<open>validateApiData\<close> rejects only what is not an object; its warnings
  and the display go to the console and the row to the database, whose errors
  \<open>saveToDatabase\<close> catches itself, so none of them touches the fetcher.
\<close>

definition processApiData :: "builtins \<Rightarrow> tick \<Rightarrow> powerData \<Rightarrow> apiDataFetcher \<Rightarrow> apiDataFetcher" where
  "processApiData js t apiData a =
     (case apiData of
        NotAnObject \<Rightarrow> a\<lparr>console := console a @ [InvalidApiData]\<rparr>
      | Object obj \<Rightarrow>
          (let a = a\<lparr>lastData := Some (transformApiData js obj)\<rparr>
           in if processThrows t
              then a\<lparr>errorCount := errorCount a + 1, console := console a @ [ProcessFailed]\<rparr>
              else a\<lparr>errorCount := 0\<rparr>))"

definition fetchAndProcess :: "builtins \<Rightarrow> tick \<Rightarrow> apiDataFetcher \<Rightarrow> apiDataFetcher" where
  "fetchAndProcess js t a =
     (if errorCount a \<ge> maxErrors
      then stop (a\<lparr>console := console a @ [TooManyErrors (errorCount a)]\<rparr>)
      else (case fetched t of
              Resolved apiData \<Rightarrow> processApiData js t apiData (a\<lparr>lastFetch := Some (clock t)\<rparr>)
            | Rejected \<Rightarrow>
                (let a = a\<lparr>errorCount := errorCount a + 1\<rparr>;
                     a = a\<lparr>console := console a @ [FetchFailed (errorCount a)]\<rparr>
                 in if errorCount a \<ge> maxErrors
                    then stop (a\<lparr>console := console a @ [MaxErrorsReached]\<rparr>)
                    else a)))"

text \<open>The callback of \<open>setInterval\<close>: \<^verbatim>\<open>if (this.isRunning) await this.fetchAndProcess()\<close>.\<close>

definition onInterval :: "builtins \<Rightarrow> apiDataFetcher \<Rightarrow> tick \<Rightarrow> apiDataFetcher" where
  "onInterval js a t = (if fetchInterval a \<and> isRunning a then fetchAndProcess js t a else a)"

text \<open>
  \<open>start\<close>: nothing when already running; else the counter is reset, a first fetch is
  made at once and the interval timer is set.
\<close>

definition start :: "builtins \<Rightarrow> tick \<Rightarrow> apiDataFetcher \<Rightarrow> apiDataFetcher" where
  "start js t a =
     (if isRunning a then a
      else (let a = a\<lparr>isRunning := True, errorCount := 0\<rparr>;
                a = fetchAndProcess js t a
            in a\<lparr>fetchInterval := True\<rparr>))"

definition poll :: "builtins \<Rightarrow> apiDataFetcher \<Rightarrow> tick list \<Rightarrow> apiDataFetcher" where
  "poll js a ts = foldl (onInterval js) a ts"

section \<open>Invariants of the connection\<close>

text \<open>
  What holds of \<open>sent\<close> and \<open>answered\<close> in each phase: the steps of the protocol split
  into those done and those still to do, the responses observed are those of the steps
  done, and the requests sent are those of the steps done, plus the request of the current
  step while its response is awaited (or was awaited when the chain failed).
\<close>

definition orderInv :: "protocol \<Rightarrow> connection \<Rightarrow> bool" where
  "orderInv p c =
     (\<exists>done todo. steps p = done @ todo \<and> answered c = map stepId done \<and>
        (case phase c of
           Idle \<Rightarrow> done = [] \<and> sent c = []
         | Connecting \<Rightarrow> done = [] \<and> sent c = []
         | Sending t \<Rightarrow> t = todo \<and> t \<noteq> [] \<and> map reqId (sent c) = map stepId done
         | Waiting t \<Rightarrow> t = todo \<and> t \<noteq> [] \<and> map reqId (sent c) = map stepId done @ [stepId (hd t)]
         | Monitoring \<Rightarrow> todo = [] \<and> map reqId (sent c) = map stepId done
         | Failed e \<Rightarrow> map reqId (sent c) = map stepId done
               \<or> (todo \<noteq> [] \<and> map reqId (sent c) = map stepId done @ [stepId (hd todo)])))"

text \<open>
  The shape both protocols have: the first step has id 0 and is the only one that waits
  for the session token, and the step with id 7 carries the token.
\<close>

definition tokenProtocol :: "protocol \<Rightarrow> bool" where
  "tokenProtocol p =
     (\<exists>s0 rest. steps p = s0 # rest \<and> expect s0 = SessionToken \<and> stepId s0 = 0 \<and>
        (\<forall>s \<in> set rest. expect s \<noteq> SessionToken \<and> stepId s \<noteq> 0 \<and> (stepId s = 7 \<longrightarrow> withUSID s)))"

text \<open>
  Once a response has been observed there is a non-empty token, and a request other than
  the first carries no token or the current one; the request with id 7 carries one.
\<close>

definition tokenInv :: "connection \<Rightarrow> bool" where
  "tokenInv c =
     ((answered c \<noteq> [] \<longrightarrow> (\<exists>u. USID c = Some u \<and> u \<noteq> [])) \<and>
      (\<forall>r \<in> set (sent c). reqId r \<noteq> 0 \<longrightarrow>
          (reqUSID r = None \<or> reqUSID r = USID c) \<and> (reqId r = 7 \<longrightarrow> reqUSID r \<noteq> None)))"

section \<open>Inputs for the examples\<close>

text \<open>
  A monitor as it is after the handshake, with a database and a station record, and a
  frame that is handled at time \<open>t\<close> while no warning is drawn.
\<close>

definition exampleMonitor :: "int list \<Rightarrow> stationMonitor" where
  "exampleMonitor objects =
     \<lparr>monitoredObjects = objects, dataBuffer = [], lastUpdate = None, lastDbSave = None,
      databaseService = True, stationRecord = Some ''s1'', suspended = [], powerReadings = []\<rparr>"

definition exampleFrame :: "int \<Rightarrow> jsval jsobject \<Rightarrow> frame" where
  "exampleFrame t values = \<lparr>syncData = values, now = t, random = constantDraws 0.5\<rparr>"

text \<open>
  Responses of a station, and a handshake that succeeds although the station answers the
  registration step (id 7) before the session step.
\<close>

definition sessionResponse :: message where
  "sessionResponse = \<lparr>msgId = Some 0, result = ResultSession ''u1'', cached = False, notification = None\<rparr>"

definition boolResponse :: "int \<Rightarrow> bool \<Rightarrow> message" where
  "boolResponse k b = \<lparr>msgId = Some k, result = ResultBool b, cached = False, notification = None\<rparr>"

definition exampleHandshake :: "event list" where
  "exampleHandshake =
     [ConnectCall, Open,
      SendTimer True, Message (Some (boolResponse 7 True)), Message (Some sessionResponse),
      SendTimer True, Message (Some (boolResponse 1 True)),
      SendTimer True, Message (Some (boolResponse 2 True)),
      SendTimer True, Message (Some (boolResponse 3 True)),
      SendTimer True, Message (Some (boolResponse 4 True)),
      SendTimer True, Message (Some (boolResponse 5 True)),
      SendTimer True, Message (Some (boolResponse 6 True)),
      SendTimer True, Message (Some (boolResponse 7 True))]"

text \<open>
  Five closures of the socket in a row, each reconnect attempt in between failing with an
  error.
\<close>

definition fiveClosures :: "event list" where
  "fiveClosures =
     [Close, ReconnectTimer, Error, Close, ReconnectTimer, Error, Close, ReconnectTimer, Error,
      Close, ReconnectTimer, Error, Close]"

text \<open>A fetcher that has been started, and ticks whose fetch fails or succeeds.\<close>

definition exampleFetcher :: apiDataFetcher where
  "exampleFetcher = \<lparr>isRunning = True, fetchInterval = True, errorCount = 0, lastFetch = None,
                      lastData = None, console = []\<rparr>"

definition rejectedTick :: "int \<Rightarrow> tick" where
  "rejectedTick t = \<lparr>fetched = Rejected, clock = t, processThrows = False\<rparr>"

definition resolvedTick :: "int \<Rightarrow> jsval jsobject \<Rightarrow> tick" where
  "resolvedTick t apiData = \<lparr>fetched = Resolved (Object apiData), clock = t, processThrows = False\<rparr>"

section \<open>Properties of the transport-kind check\<close>

lemma startsWith_prefix: "startsWith s p = prefix p s"
  by (induction s p rule: startsWith.induct) auto

lemma includes_sublist: "includesStr s p = sublist p s"
proof (induction s)
  case Nil
  then show ?case by (simp add: startsWith_prefix)
next
  case (Cons c cs)
  then show ?case by (simp add: startsWith_prefix sublist_Cons_right)
qed

lemma https_not_http: "prefix ''https://'' e \<Longrightarrow> \<not> prefix ''http://'' e"
  by (auto simp: prefix_def)

text \<open>
  Claim C10. A station is classified as HTTP-polled exactly when its endpoint string
  (\<open>ipAddress\<close>, or \<open>ip\<close> when \<open>ipAddress\<close> is missing or empty) starts with
  \<open>http://\<close> and contains \<open>/data\<close>. Hence an endpoint that begins with \<open>https://\<close>
  gets a WebSocket monitor from the controller and is never listed as an API station by
  the analyzer, although the fetcher has a branch for the \<open>https:\<close> protocol.
\<close>

theorem isApiStation_exactly_http_data:
  "(isApiStation cfg \<longleftrightarrow>
      (\<exists>e. endpoint cfg = Some e \<and> prefix ''http://'' e \<and> sublist ''/data'' e))
   \<and> (\<forall>e. endpoint cfg = Some e \<and> prefix ''https://'' e \<longrightarrow>
          \<not> isApiStation cfg \<and> createMonitor cfg = WebSocketMonitor
          \<and> analyzeStation cfg \<noteq> ApiStation)
   \<and> fetchClient ''https:'' = Https \<and> fetchPort ''https:'' None = 443"
proof -
  have iff: "isApiStation cfg \<longleftrightarrow>
      (\<exists>e. endpoint cfg = Some e \<and> prefix ''http://'' e \<and> sublist ''/data'' e)"
    by (cases "endpoint cfg")
       (auto simp: isApiStation_def startsWith_prefix includes_sublist)
  have https: "\<not> isApiStation cfg" if "endpoint cfg = Some e" "prefix ''https://'' e" for e
    using that iff https_not_http by auto
  have kind: "createMonitor cfg = WebSocketMonitor" if "\<not> isApiStation cfg"
    using that by (simp add: createMonitor_def)
  have row: "analyzeStation cfg \<noteq> ApiStation" if "\<not> isApiStation cfg"
  proof (cases "truthy (ipAddress cfg)")
    case True
    then have "endpoint (cfg\<lparr>ip := None\<rparr>) = endpoint cfg"
      by (simp add: endpoint_def js_or_def)
    with that have "\<not> isApiStation (cfg\<lparr>ip := None\<rparr>)" by (simp add: isApiStation_def)
    then show ?thesis by (simp add: analyzeStation_def)
  next
    case False
    then show ?thesis by (simp add: analyzeStation_def)
  qed
  have client: "fetchClient ''https:'' = Https \<and> fetchPort ''https:'' None = 443"
    by (simp add: fetchClient_def fetchPort_def)
  from iff https kind row client show ?thesis by blast
qed

theorem isApiStation_exactly_http_data_witness:
  "endpoint \<lparr>name = Some ''A'', ipAddress = Some ''https://10.0.0.1/data'', ip = None,
              scene = None\<rparr> = Some ''https://10.0.0.1/data''
   \<and> prefix ''https://'' ''https://10.0.0.1/data''
   \<and> createMonitor \<lparr>name = Some ''A'', ipAddress = Some ''https://10.0.0.1/data'', ip = None,
              scene = None\<rparr> = WebSocketMonitor"
proof -
  let ?cfg = "\<lparr>name = Some ''A'', ipAddress = Some ''https://10.0.0.1/data'', ip = None,
              scene = None\<rparr>"
  have e: "endpoint ?cfg = Some ''https://10.0.0.1/data''"
    by (simp add: endpoint_def js_or_def truthy_def)
  have p: "prefix ''https://'' ''https://10.0.0.1/data''" by simp
  from isApiStation_exactly_http_data [of ?cfg] e p show ?thesis by blast
qed

section \<open>Objects, tables and the buffer: auxiliary facts\<close>

lemma activePowerMap_entries:
  "activePowerMap =
     [(''8684'', ''activePower1''), (''8685'', ''activePower2''), (''8686'', ''activePower3''),
      (''8687'', ''activePower4''), (''8688'', ''activePower5''), (''8689'', ''activePower6'')]"
  by (simp add: activePowerMap_def objectLiteral_def setProp_def hasOwnProperty_def
        arrayIndex_def isDigit_def digitsValue_def)

lemma muxPowerMap_entries:
  "muxPowerMap =
     [(''18053'', ''muxPower6''), (''18069'', ''muxPower1''), (''18070'', ''muxPower2''),
      (''73909'', ''muxPower3''), (''73910'', ''muxPower4''), (''75428'', ''muxPower5''),
      (''75429'', ''muxPower6''), (''75432'', ''muxPower5''), (''75441'', ''muxPower5''),
      (''75483'', ''muxPower5''), (''75484'', ''muxPower6''), (''75519'', ''muxPower6''),
      (''224272'', ''muxPower5'')]"
  by (simp add: muxPowerMap_def objectLiteral_def setProp_def hasOwnProperty_def
        arrayIndex_def isDigit_def digitsValue_def)

lemma map_of_insertProp:
  "map_of obj k = None \<Longrightarrow> map_of (insertProp k v obj) = (map_of obj)(k \<mapsto> v)"
proof (induction obj)
  case Nil
  then show ?case by simp
next
  case (Cons e es)
  obtain k' v' where e: "e = (k', v')" by (cases e)
  from Cons.prems e have ne: "k' \<noteq> k" and rest: "map_of es k = None"
    by (auto split: if_splits)
  from Cons.IH [OF rest] ne show ?case
    by (auto simp: e fun_upd_twist split: option.splits)
qed

lemma map_of_replace:
  "map_of (map (\<lambda>(k', v'). if k' = k then (k', v) else (k', v')) obj) =
     (\<lambda>x. if x = k \<and> map_of obj k \<noteq> None then Some v else map_of obj x)"
  by (induction obj) (auto simp: fun_eq_iff)

lemma map_of_setProp: "map_of (setProp obj k v) = (map_of obj)(k \<mapsto> v)"
  by (auto simp: setProp_def hasOwnProperty_def map_of_insertProp map_of_replace fun_eq_iff)

lemma transformLoops_foldl:
  "transformLoops js obj = foldl (transformEntry js obj) Map.empty tableOrder"
  by (simp add: transformLoops_def tableOrder_def Let_def)

lemma transformPowerData_Object:
  "transformPowerData js (Object obj) =
     (if shadowsHasOwnProperty obj \<or> list_ex throwsOnConversion (parsedValues obj)
      then Inl TypeError else Inr (transformLoops js obj))"
  by (simp add: transformPowerData_def)

lemma parsedValues_values: "set (parsedValues obj) \<subseteq> set (map snd obj)"
proof
  fix x
  assume "x \<in> set (parsedValues obj)"
  then obtain k where "map_of obj k = Some x"
    by (auto simp: parsedValues_def split: option.splits)
  then have "(k, x) \<in> set obj" by (rule map_of_SomeD)
  then show "x \<in> set (map snd obj)" by force
qed

lemma convertible_parsed: "convertible obj \<Longrightarrow> \<not> list_ex throwsOnConversion (parsedValues obj)"
  using parsedValues_values [of obj] by (auto simp: convertible_def list_ex_iff)

lemma parsedValues_cong:
  "\<forall>e \<in> set tableOrder. map_of obj (fst e) = map_of obj' (fst e) \<Longrightarrow>
   parsedValues obj = parsedValues obj'"
  unfolding parsedValues_def by (intro arg_cong [where f = concat] map_cong) auto

lemma shadows_keys: "shadowsHasOwnProperty obj \<longleftrightarrow> ''hasOwnProperty'' \<in> fst ` set obj"
  by (simp add: shadowsHasOwnProperty_def hasOwnProperty_def map_of_eq_None_iff)

lemma natToString_digits: "set (natToString n) \<subseteq> set ''0123456789''"
proof (induction n rule: natToString.induct)
  case (1 n)
  have d: "digitChar k \<in> set ''0123456789''" if "k < 10" for k
    unfolding digitChar_def using that by (intro nth_mem) simp
  show ?case
  proof (cases "n < 10")
    case True
    with d [of n] show ?thesis by (subst natToString.simps) simp
  next
    case False
    have "n mod 10 < 10" by simp
    from d [OF this] 1 False show ?thesis by (subst natToString.simps) simp
  qed
qed

lemma raw_id_not_method: "list_all isDigit k \<Longrightarrow> k \<noteq> ''hasOwnProperty''"
  by (auto simp: isDigit_def)

lemma toString_not_method: "toString i \<noteq> ''hasOwnProperty''"
proof
  assume eq: "toString i = ''hasOwnProperty''"
  show False
  proof (cases "i < 0")
    case True
    with eq show False by (simp add: toString_def)
  next
    case False
    with eq have "natToString (nat i) = ''hasOwnProperty''" by (simp add: toString_def)
    then have "CHR ''h'' \<in> set (natToString (nat i))" by simp
    with natToString_digits [of "nat i"] show False by auto
  qed
qed

lemma foldl_transformEntry_last:
  "foldl (transformEntry js obj) db es f =
     (case filter (\<lambda>(k, fld). fld = f \<and> hasOwnProperty obj k) es of
        [] \<Rightarrow> db f
      | w # ws \<Rightarrow> Some (nullIfNaN (parseFloat js (the (map_of obj (fst (last (w # ws))))))))"
proof (induction es arbitrary: db rule: rev_induct)
  case Nil
  then show ?case by simp
next
  case (snoc e es)
  obtain k fld where e: "e = (k, fld)" by (cases e)
  show ?case
    using snoc.IH [of db]
    by (auto simp: e transformEntry_def hasOwnProperty_def split: option.splits list.splits)
qed

lemma foldl_transformEntry_cong:
  "\<forall>e \<in> set es. map_of obj (fst e) = map_of obj' (fst e) \<Longrightarrow>
   foldl (transformEntry js obj) db es = foldl (transformEntry js obj') db es"
  by (induction es arbitrary: db) (auto simp: transformEntry_def)

lemma foldl_transformEntry_dom:
  "dom (foldl (transformEntry js obj) db es) \<subseteq> dom db \<union> snd ` set es"
proof (induction es arbitrary: db)
  case Nil
  then show ?case by simp
next
  case (Cons e es)
  have "dom (transformEntry js obj db e) \<subseteq> dom db \<union> {snd e}"
    by (cases e) (auto simp: transformEntry_def split: option.splits)
  with Cons.IH [of "transformEntry js obj db e"] show ?case by auto
qed

lemma snd_tableOrder: "snd ` set tableOrder = set directFields"
  by (auto simp: tableOrder_def activePowerMap_entries muxPowerMap_entries directFields_def)

lemma updateObject_cong:
  "map_of sync (toString oid) = map_of sync' (toString oid) \<Longrightarrow>
   updateObject sync acc oid = updateObject sync' acc oid"
  by (cases acc) (simp add: updateObject_def)

lemma foldl_updateObject_cong:
  "\<forall>oid \<in> set ids. map_of sync (toString oid) = map_of sync' (toString oid) \<Longrightarrow>
   foldl (updateObject sync) acc ids = foldl (updateObject sync') acc ids"
proof (induction ids arbitrary: acc)
  case Nil
  then show ?case by simp
next
  case (Cons oid ids)
  from Cons.prems have "updateObject sync acc oid = updateObject sync' acc oid"
    by (intro updateObject_cong) simp
  moreover from Cons.prems have "foldl (updateObject sync) (updateObject sync' acc oid) ids =
      foldl (updateObject sync') (updateObject sync' acc oid) ids"
    by (intro Cons.IH) simp
  ultimately show ?case by simp
qed

lemma applySync_cong:
  "\<forall>oid \<in> set (monitoredObjects m). map_of sync (toString oid) = map_of sync' (toString oid) \<Longrightarrow>
   applySync sync m = applySync sync' m"
  unfolding applySync_def by (rule foldl_updateObject_cong)

lemma foldl_updateObject_flag_mono:
  "snd (foldl (updateObject sync) (b, True) ids) = True"
  by (induction ids arbitrary: b) (auto simp: updateObject_def split: option.splits)

lemma foldl_updateObject_unchanged:
  "snd (foldl (updateObject sync) (b, False) ids) = False \<Longrightarrow>
   fst (foldl (updateObject sync) (b, False) ids) = b"
proof (induction ids arbitrary: b)
  case Nil
  then show ?case by simp
next
  case (Cons oid ids)
  show ?case
  proof (cases "updateObject sync (b, False) oid = (b, False)")
    case True
    with Cons show ?thesis by simp
  next
    case False
    then obtain b' where "updateObject sync (b, False) oid = (b', True)"
      by (auto simp: updateObject_def split: option.splits if_splits)
    with Cons.prems foldl_updateObject_flag_mono [of sync b' ids] show ?thesis by simp
  qed
qed

lemma keys_setProp: "fst ` set (setProp obj k v) = insert k (fst ` set obj)"
proof -
  have "dom (map_of (setProp obj k v)) = insert k (dom (map_of obj))"
    by (simp add: map_of_setProp)
  then show ?thesis by (simp add: dom_map_of_conv_image_fst)
qed

lemma updateObject_lookup:
  "map_of (fst (updateObject sync (b, c) oid)) =
     (case map_of sync (toString oid) of
        None \<Rightarrow> map_of b
      | Some v \<Rightarrow> (map_of b)(toString oid \<mapsto> v))"
proof (cases "map_of sync (toString oid)")
  case None
  then show ?thesis by (simp add: updateObject_def)
next
  case (Some v)
  show ?thesis
  proof (cases "strictNotEqual (map_of b (toString oid)) v")
    case True
    with Some show ?thesis by (simp add: updateObject_def map_of_setProp)
  next
    case False
    then have "map_of b (toString oid) = Some v"
      by (auto simp: strictNotEqual_def split: option.splits)
    then have "(map_of b)(toString oid \<mapsto> v) = map_of b" by (simp add: fun_upd_idem)
    with Some False show ?thesis by (simp add: updateObject_def)
  qed
qed

lemma updateObject_keys:
  "fst ` set (fst (updateObject sync (b, c) oid)) \<subseteq> insert (toString oid) (fst ` set b)"
proof -
  have "dom (map_of (fst (updateObject sync (b, c) oid))) \<subseteq> insert (toString oid) (dom (map_of b))"
    by (auto simp: updateObject_lookup split: option.splits)
  then show ?thesis by (simp add: dom_map_of_conv_image_fst)
qed

lemma foldl_updateObject_keys:
  "fst ` set (fst (foldl (updateObject sync) (b, c) ids)) \<subseteq> fst ` set b \<union> toString ` set ids"
proof (induction ids arbitrary: b c)
  case Nil
  then show ?case by simp
next
  case (Cons oid ids)
  obtain b' c' where u: "updateObject sync (b, c) oid = (b', c')"
    by (cases "updateObject sync (b, c) oid")
  with updateObject_keys [of sync b c oid]
  have "fst ` set b' \<subseteq> insert (toString oid) (fst ` set b)" by simp
  with Cons.IH [of b' c'] u show ?case by auto
qed

lemma foldl_updateObject_lookup:
  "map_of (fst (foldl (updateObject sync) (b, c) ids)) k =
     (if k \<in> toString ` set ids \<and> map_of sync k \<noteq> None then map_of sync k else map_of b k)"
proof (induction ids arbitrary: b c)
  case Nil
  then show ?case by simp
next
  case (Cons oid ids)
  obtain b' c' where u: "updateObject sync (b, c) oid = (b', c')"
    by (cases "updateObject sync (b, c) oid")
  have b': "map_of b' = (case map_of sync (toString oid) of None \<Rightarrow> map_of b
                     | Some v \<Rightarrow> (map_of b)(toString oid \<mapsto> v))"
    using updateObject_lookup [of sync b c oid] by (simp only: u fst_conv)
  have A: "map_of (fst (foldl (updateObject sync) (b', c') ids)) k =
     (if k \<in> toString ` set ids \<and> map_of sync k \<noteq> None then map_of sync k else map_of b' k)"
    by (rule Cons.IH)
  have B: "map_of b' k =
     (if k = toString oid \<and> map_of sync k \<noteq> None then map_of sync k else map_of b k)"
  proof (cases "map_of sync (toString oid)")
    case None
    then show ?thesis by (auto simp: b')
  next
    case (Some v)
    then show ?thesis by (auto simp: b')
  qed
  have eq: "foldl (updateObject sync) (b, c) (oid # ids) = foldl (updateObject sync) (b', c') ids"
    by (simp only: foldl_Cons u)
  show ?case unfolding eq A B by auto
qed

lemma foldl_updateObject_fixed:
  "\<forall>oid \<in> set ids. \<forall>v. map_of sync (toString oid) = Some v \<longrightarrow>
      \<not> strictNotEqual (map_of b (toString oid)) v \<Longrightarrow>
   foldl (updateObject sync) (b, c) ids = (b, c)"
proof (induction ids)
  case Nil
  then show ?case by simp
next
  case (Cons oid ids)
  from Cons.prems have "updateObject sync (b, c) oid = (b, c)"
    by (auto simp: updateObject_def split: option.splits)
  with Cons show ?case by simp
qed

lemma foldl_updateObject_changed:
  assumes "oid \<in> set ids" "map_of sync (toString oid) = Some v"
    "strictNotEqual (map_of b (toString oid)) v"
  shows "snd (foldl (updateObject sync) (b, c) ids)"
  using assms
proof (induction ids arbitrary: b c)
  case Nil
  then show ?case by simp
next
  case (Cons x ids)
  obtain b' c' where u: "updateObject sync (b, c) x = (b', c')"
    by (cases "updateObject sync (b, c) x")
  show ?case
  proof (cases "c'")
    case True
    with u foldl_updateObject_flag_mono [of sync b' ids] show ?thesis by simp
  next
    case False
    with u have same: "b' = b"
      by (auto simp: updateObject_def split: option.splits if_splits)
    have "x \<noteq> oid"
    proof
      assume "x = oid"
      with Cons.prems u False show False by (simp add: updateObject_def)
    qed
    with Cons.prems have "oid \<in> set ids" by simp
    from Cons.IH [OF this Cons.prems(2)] Cons.prems(3) same u show ?thesis by simp
  qed
qed

lemma shadows_setProp:
  "shadowsHasOwnProperty (setProp obj k v) \<longleftrightarrow> k = ''hasOwnProperty'' \<or> shadowsHasOwnProperty obj"
  by (auto simp: shadows_keys keys_setProp)

lemma applySync_keeps_method:
  assumes "\<not> shadowsHasOwnProperty (dataBuffer m)"
  shows "\<not> shadowsHasOwnProperty (fst (applySync sync m))"
proof
  assume "shadowsHasOwnProperty (fst (applySync sync m))"
  then have "''hasOwnProperty'' \<in> fst ` set (dataBuffer m) \<union> toString ` set (monitoredObjects m)"
    using foldl_updateObject_keys [of sync "dataBuffer m" False "monitoredObjects m"]
    by (auto simp: shadows_keys applySync_def)
  with assms show False by (auto simp: shadows_keys toString_not_method [symmetric])
qed

lemma applySync_lastUpdate: "applySync sync (m\<lparr>lastUpdate := t\<rparr>) = applySync sync m"
  by (simp add: applySync_def)

lemma tooSoon_fields:
  "tooSoon f (m\<lparr>lastUpdate := t, dataBuffer := b\<rparr>) = tooSoon f m"
  by (simp add: tooSoon_def)

lemma saveToDatabase_throttled: "tooSoon f m \<Longrightarrow> saveToDatabase js f m = m"
  by (simp add: saveToDatabase_def)

lemma saveToDatabase_started:
  assumes "\<not> tooSoon f m" "stationRecord m = Some sid"
  shows "saveToDatabase js f m =
           m\<lparr>suspended := suspended m @
               [\<lparr>saveNow = now f,
                 saveReading = \<lparr>stationId = sid, timestamp = lastUpdate m,
                                powerData = Object (dataBuffer m)\<rparr>\<rparr>]\<rparr>"
  using assms by (simp add: saveToDatabase_def validatePowerData_def Let_def)

lemma saveToDatabase_fields:
  "powerReadings (saveToDatabase js f m) = powerReadings m
   \<and> lastDbSave (saveToDatabase js f m) = lastDbSave m
   \<and> databaseService (saveToDatabase js f m) = databaseService m
   \<and> stationRecord (saveToDatabase js f m) = stationRecord m
   \<and> monitoredObjects (saveToDatabase js f m) = monitoredObjects m
   \<and> dataBuffer (saveToDatabase js f m) = dataBuffer m
   \<and> lastUpdate (saveToDatabase js f m) = lastUpdate m"
  by (simp add: saveToDatabase_def Let_def split: option.splits)

lemma notification_fields:
  "powerReadings (monitorOf (updateData js f m)) = powerReadings m
   \<and> lastDbSave (monitorOf (updateData js f m)) = lastDbSave m
   \<and> databaseService (monitorOf (updateData js f m)) = databaseService m
   \<and> stationRecord (monitorOf (updateData js f m)) = stationRecord m
   \<and> monitoredObjects (monitorOf (updateData js f m)) = monitoredObjects m
   \<and> lastUpdate (monitorOf (updateData js f m)) = Some (now f)"
  by (cases "applySync (syncData f) m")
     (simp add: updateData_def monitorOf_def displayData_def Let_def applySync_lastUpdate
        saveToDatabase_fields)

lemma notification_unchanged:
  assumes "\<not> snd (applySync (syncData f) m)"
  shows "monitorOf (updateData js f m) = m\<lparr>lastUpdate := Some (now f)\<rparr>"
proof -
  from assms have "fst (applySync (syncData f) m) = dataBuffer m"
    unfolding applySync_def by (intro foldl_updateObject_unchanged) simp
  with assms have "applySync (syncData f) m = (dataBuffer m, False)"
    by (cases "applySync (syncData f) m") simp
  then show ?thesis
    by (simp add: updateData_def monitorOf_def Let_def applySync_lastUpdate)
qed

lemma notification_throttled:
  assumes "tooSoon f m"
  shows "suspended (monitorOf (updateData js f m)) = suspended m"
  using assms
  by (cases "applySync (syncData f) m")
     (simp add: updateData_def monitorOf_def displayData_def Let_def applySync_lastUpdate
        tooSoon_fields saveToDatabase_throttled)

lemma notification_started:
  assumes "databaseService m" "stationRecord m = Some sid" "\<not> tooSoon f m"
    and "snd (applySync (syncData f) m)" "\<not> shadowsHasOwnProperty (syncData f)"
    and "convertible (fst (applySync (syncData f) m))"
  shows "updateData js f m =
           Returned (m\<lparr>lastUpdate := Some (now f), dataBuffer := fst (applySync (syncData f) m),
             suspended := suspended m @
               [\<lparr>saveNow = now f,
                 saveReading = \<lparr>stationId = sid, timestamp = Some (now f),
                                powerData = Object (fst (applySync (syncData f) m))\<rparr>\<rparr>]\<rparr>)"
proof -
  obtain buffer where a: "applySync (syncData f) m = (buffer, True)"
    using assms(4) by (cases "applySync (syncData f) m") simp
  let ?m = "m\<lparr>lastUpdate := Some (now f), dataBuffer := buffer\<rparr>"
  have "updateData js f m = Returned (saveToDatabase js f ?m)"
    using assms(1,2,5,6) a
    by (simp add: updateData_def displayData_def Let_def applySync_lastUpdate)
  moreover have "saveToDatabase js f ?m =
      ?m\<lparr>suspended := suspended ?m @
               [\<lparr>saveNow = now f,
                 saveReading = \<lparr>stationId = sid, timestamp = lastUpdate ?m,
                                powerData = Object (dataBuffer ?m)\<rparr>\<rparr>]\<rparr>"
    using assms(2,3) by (intro saveToDatabase_started) (simp_all add: tooSoon_fields)
  ultimately show ?thesis using a by simp
qed

lemma createPowerReading_row:
  assumes "sid \<noteq> []" "\<not> shadowsHasOwnProperty obj" "convertible obj"
  shows "createPowerReading js True \<lparr>stationId = sid, timestamp = Some t, powerData = Object obj\<rparr> =
           Inr \<lparr>rowStationId = sid, rowTimestamp = t, rowData = transformLoops js obj\<rparr>"
  using assms by (simp add: createPowerReading_def transformPowerData_Object convertible_parsed)

lemma resumeSave_idle: "suspended m = [] \<Longrightarrow> resumeSave js k ok m = m"
  by (simp add: resumeSave_def)

lemma resumeSave_fulfilled:
  assumes "k < length (suspended m)"
    and "createPowerReading js True (saveReading (suspended m ! k)) = Inr row"
  shows "resumeSave js k True m =
           m\<lparr>suspended := take k (suspended m) @ drop (Suc k) (suspended m),
             powerReadings := powerReadings m @ [row],
             lastDbSave := Some (saveNow (suspended m ! k))\<rparr>"
  using assms by (simp add: resumeSave_def Let_def)

lemma runMonitor_Nil: "runMonitor js [] m = m"
  by (simp add: runMonitor_def)

lemma runMonitor_Cons: "runMonitor js (ev # evs) m = runMonitor js evs (onMonitorEvent js m ev)"
  by (simp add: runMonitor_def)

lemma runMonitor_append:
  "runMonitor js (evs @ evs') m = runMonitor js evs' (runMonitor js evs m)"
  by (simp add: runMonitor_def)

lemma onMonitorEvent_Notification:
  "onMonitorEvent js m (Notification f) = monitorOf (updateData js f m)"
  by (simp add: onMonitorEvent_def)

lemma onMonitorEvent_Settled: "onMonitorEvent js m (Settled k ok) = resumeSave js k ok m"
  by (simp add: onMonitorEvent_def)

lemma applySync_eq:
  "dataBuffer m' = dataBuffer m \<Longrightarrow> monitoredObjects m' = monitoredObjects m \<Longrightarrow>
   applySync sync m' = applySync sync m"
  by (simp add: applySync_def)

lemma notification_buffer:
  "dataBuffer (monitorOf (updateData js f m)) =
     (if monitoredObjects m \<noteq> [] \<and> shadowsHasOwnProperty (syncData f) then dataBuffer m
      else fst (applySync (syncData f) m))"
  by (cases "applySync (syncData f) m")
     (simp add: updateData_def monitorOf_def displayData_def Let_def applySync_lastUpdate
        saveToDatabase_fields)

lemma write_started:
  assumes "databaseService m" "stationRecord m = Some sid" "\<not> tooSoon f m"
    and "snd (applySync (syncData f) m)" "\<not> shadowsHasOwnProperty (syncData f)"
    and "convertible (fst (applySync (syncData f) m))"
  shows "onMonitorEvent js m (Notification f) =
           m\<lparr>lastUpdate := Some (now f), dataBuffer := fst (applySync (syncData f) m),
             suspended := suspended m @ [startedSave sid f m]\<rparr>"
  by (simp add: onMonitorEvent_Notification notification_started [OF assms] monitorOf_def
        startedSave_def)

lemma write_throttled:
  assumes "tooSoon f m"
  shows "suspended (onMonitorEvent js m (Notification f)) = suspended m
       \<and> powerReadings (onMonitorEvent js m (Notification f)) = powerReadings m
       \<and> lastDbSave (onMonitorEvent js m (Notification f)) = lastDbSave m"
  using notification_throttled [OF assms, of js] notification_fields [of js f m]
  by (simp add: onMonitorEvent_Notification)

lemma startedSave_fulfilled:
  assumes "sid \<noteq> []" "\<not> shadowsHasOwnProperty (dataBuffer m)"
    and "convertible (fst (applySync (syncData f) m))"
  shows "createPowerReading js True (saveReading (startedSave sid f m)) = Inr (writtenRow js sid f m)"
  using createPowerReading_row [OF assms(1) applySync_keeps_method [OF assms(2)] assms(3), of js "now f"]
  by (simp add: startedSave_def writtenRow_def)

lemma write_completed:
  assumes "databaseService m" "stationRecord m = Some sid" "sid \<noteq> []" "\<not> tooSoon f m"
    and "snd (applySync (syncData f) m)" "\<not> shadowsHasOwnProperty (syncData f)"
    and "convertible (fst (applySync (syncData f) m))"
    and "\<not> shadowsHasOwnProperty (dataBuffer m)" "suspended m = []"
  shows "runMonitor js [Notification f, Settled 0 True] m =
           m\<lparr>lastUpdate := Some (now f), dataBuffer := fst (applySync (syncData f) m),
             suspended := [], powerReadings := powerReadings m @ [writtenRow js sid f m],
             lastDbSave := Some (now f)\<rparr>"
proof -
  let ?m1 = "onMonitorEvent js m (Notification f)"
  have m1: "?m1 = m\<lparr>lastUpdate := Some (now f), dataBuffer := fst (applySync (syncData f) m),
             suspended := [startedSave sid f m]\<rparr>"
    using write_started [OF assms(1,2,4,5,6,7), of js] assms(9) by simp
  have k: "0 < length (suspended ?m1)" by (simp add: m1)
  have c: "createPowerReading js True (saveReading (suspended ?m1 ! 0)) = Inr (writtenRow js sid f m)"
    using startedSave_fulfilled [OF assms(3,8,7), of js] by (simp add: m1)
  have "runMonitor js [Notification f, Settled 0 True] m = resumeSave js 0 True ?m1"
    by (simp add: runMonitor_Cons runMonitor_Nil onMonitorEvent_Settled)
  also have "\<dots> = ?m1\<lparr>suspended := take 0 (suspended ?m1) @ drop (Suc 0) (suspended ?m1),
             powerReadings := powerReadings ?m1 @ [writtenRow js sid f m],
             lastDbSave := Some (saveNow (suspended ?m1 ! 0))\<rparr>"
    by (rule resumeSave_fulfilled [OF k c])
  also have "\<dots> = m\<lparr>lastUpdate := Some (now f), dataBuffer := fst (applySync (syncData f) m),
             suspended := [], powerReadings := powerReadings m @ [writtenRow js sid f m],
             lastDbSave := Some (now f)\<rparr>"
    by (simp add: m1 startedSave_def)
  finally show ?thesis .
qed

lemma second_update:
  assumes "m1 = m\<lparr>lastUpdate := a, dataBuffer := b, suspended := suspended m @ [s]\<rparr>"
  shows "m1\<lparr>lastUpdate := a', dataBuffer := b', suspended := suspended m1 @ [s']\<rparr> =
           m\<lparr>lastUpdate := a', dataBuffer := b', suspended := suspended m @ [s, s']\<rparr>"
  by (simp add: assms)

lemma two_in_flight:
  assumes "databaseService m" "stationRecord m = Some sid" "\<not> tooSoon f m"
    and "snd (applySync (syncData f) m)" "\<not> shadowsHasOwnProperty (syncData f)"
    and "convertible (fst (applySync (syncData f) m))"
    and "\<not> tooSoon h m" "\<not> shadowsHasOwnProperty (syncData h)"
    and "snd (applySync (syncData h) (onMonitorEvent js m (Notification f)))"
    and "convertible (fst (applySync (syncData h) (onMonitorEvent js m (Notification f))))"
  shows "runMonitor js [Notification f, Notification h] m =
           m\<lparr>lastUpdate := Some (now h),
             dataBuffer := fst (applySync (syncData h) (onMonitorEvent js m (Notification f))),
             suspended := suspended m @
               [startedSave sid f m, startedSave sid h (onMonitorEvent js m (Notification f))]\<rparr>"
proof -
  let ?m1 = "onMonitorEvent js m (Notification f)"
  have m1: "?m1 = m\<lparr>lastUpdate := Some (now f), dataBuffer := fst (applySync (syncData f) m),
             suspended := suspended m @ [startedSave sid f m]\<rparr>"
    by (rule write_started [OF assms(1-6)])
  have d: "databaseService ?m1" "stationRecord ?m1 = Some sid" "\<not> tooSoon h ?m1"
    using assms(1,2,7) by (simp_all add: m1 tooSoon_def)
  have "runMonitor js [Notification f, Notification h] m = onMonitorEvent js ?m1 (Notification h)"
    by (simp add: runMonitor_Cons runMonitor_Nil)
  also have "\<dots> = ?m1\<lparr>lastUpdate := Some (now h), dataBuffer := fst (applySync (syncData h) ?m1),
             suspended := suspended ?m1 @ [startedSave sid h ?m1]\<rparr>"
    by (rule write_started [OF d assms(9,8,10)])
  also have "\<dots> = m\<lparr>lastUpdate := Some (now h), dataBuffer := fst (applySync (syncData h) ?m1),
             suspended := suspended m @ [startedSave sid f m, startedSave sid h ?m1]\<rparr>"
    by (rule second_update [OF m1])
  finally show ?thesis .
qed

lemma two_completed:
  assumes "databaseService m" "stationRecord m = Some sid" "sid \<noteq> []" "\<not> tooSoon f m"
    and "snd (applySync (syncData f) m)" "\<not> shadowsHasOwnProperty (syncData f)"
    and "convertible (fst (applySync (syncData f) m))"
    and "\<not> tooSoon h m" "\<not> shadowsHasOwnProperty (syncData h)"
    and "snd (applySync (syncData h) (onMonitorEvent js m (Notification f)))"
    and "convertible (fst (applySync (syncData h) (onMonitorEvent js m (Notification f))))"
    and "\<not> shadowsHasOwnProperty (dataBuffer m)" "suspended m = []"
  shows "powerReadings (runMonitor js [Notification f, Notification h, Settled 0 True, Settled 0 True] m) =
           powerReadings m @
             [writtenRow js sid f m, writtenRow js sid h (onMonitorEvent js m (Notification f))]
       \<and> suspended (runMonitor js [Notification f, Notification h, Settled 0 True, Settled 0 True] m) = []"
proof -
  let ?m1 = "onMonitorEvent js m (Notification f)"
  let ?m2 = "runMonitor js [Notification f, Notification h] m"
  have m2: "?m2 = m\<lparr>lastUpdate := Some (now h), dataBuffer := fst (applySync (syncData h) ?m1),
             suspended := [startedSave sid f m, startedSave sid h ?m1]\<rparr>"
    using two_in_flight [OF assms(1,2,4,5,6,7,8,9,10,11)] assms(13) by simp
  have b1: "\<not> shadowsHasOwnProperty (dataBuffer ?m1)"
    using applySync_keeps_method [OF assms(12), of "syncData f"] assms(6)
    by (simp add: onMonitorEvent_Notification notification_buffer)
  have c1: "createPowerReading js True (saveReading (startedSave sid f m)) = Inr (writtenRow js sid f m)"
    by (rule startedSave_fulfilled [OF assms(3,12,7)])
  have c2: "createPowerReading js True (saveReading (startedSave sid h ?m1)) = Inr (writtenRow js sid h ?m1)"
    by (rule startedSave_fulfilled [OF assms(3) b1 assms(11)])
  let ?m3 = "resumeSave js 0 True ?m2"
  have m3: "?m3 = ?m2\<lparr>suspended := [startedSave sid h ?m1],
             powerReadings := powerReadings m @ [writtenRow js sid f m],
             lastDbSave := Some (now f)\<rparr>"
    using resumeSave_fulfilled [of 0 ?m2 js "writtenRow js sid f m"] c1
    by (simp add: m2 startedSave_def)
  have m4: "resumeSave js 0 True ?m3 = ?m3\<lparr>suspended := [],
             powerReadings := powerReadings m @ [writtenRow js sid f m, writtenRow js sid h ?m1],
             lastDbSave := Some (now h)\<rparr>"
    using resumeSave_fulfilled [of 0 ?m3 js "writtenRow js sid h ?m1"] c2
    by (simp add: m3 startedSave_def)
  have "runMonitor js [Notification f, Notification h, Settled 0 True, Settled 0 True] m =
          resumeSave js 0 True ?m3"
    by (simp add: runMonitor_Cons runMonitor_Nil onMonitorEvent_Settled)
  with m4 show ?thesis by simp
qed

lemma resumeSave_fields:
  "dataBuffer (resumeSave js k ok m) = dataBuffer m
   \<and> monitoredObjects (resumeSave js k ok m) = monitoredObjects m"
  by (simp add: resumeSave_def Let_def split: sum.splits)

lemma settlements_fields:
  "dataBuffer (runMonitor js (settlements ks) m) = dataBuffer m
   \<and> monitoredObjects (runMonitor js (settlements ks) m) = monitoredObjects m"
proof (induction ks arbitrary: m)
  case Nil
  then show ?case by (simp add: settlements_def runMonitor_Nil)
next
  case (Cons a ks)
  obtain k ok where a: "a = (k, ok)" by (cases a)
  have "runMonitor js (settlements (a # ks)) m = runMonitor js (settlements ks) (resumeSave js k ok m)"
    by (simp add: settlements_def a runMonitor_Cons onMonitorEvent_Settled)
  with Cons [of "resumeSave js k ok m"] resumeSave_fields [of js k ok m] show ?case by simp
qed

lemma runMonitor_in_window:
  assumes "lastDbSave m = Some t0" "\<forall>g \<in> set gs. now g - t0 < dbSaveInterval"
  shows "powerReadings (runMonitor js (map Notification gs) m) = powerReadings m
       \<and> suspended (runMonitor js (map Notification gs) m) = suspended m
       \<and> lastDbSave (runMonitor js (map Notification gs) m) = Some t0"
  using assms
proof (induction gs arbitrary: m)
  case Nil
  then show ?case by (simp add: runMonitor_Nil)
next
  case (Cons g gs)
  let ?m = "monitorOf (updateData js g m)"
  from Cons.prems have w: "tooSoon g m" by (simp add: tooSoon_def)
  from notification_fields [of js g m] Cons.prems(1)
  have l: "lastDbSave ?m = Some t0" and p: "powerReadings ?m = powerReadings m" by simp_all
  from notification_throttled [OF w, of js] have s: "suspended ?m = suspended m" .
  from Cons.prems have r: "\<forall>g \<in> set gs. now g - t0 < dbSaveInterval" by simp
  from Cons.IH [OF l r] p s show ?case
    by (simp add: runMonitor_Cons onMonitorEvent_Notification)
qed

lemma applySync_repeat:
  assumes noobj: "\<forall>oid \<in> set (monitoredObjects m). \<forall>s.
                    map_of (syncData f) (toString oid) \<noteq> Some (JObject s)"
    and same: "\<forall>oid \<in> set (monitoredObjects m).
                 map_of (syncData g) (toString oid) = map_of (syncData f) (toString oid)"
    and m': "monitoredObjects m' = monitoredObjects m"
            "dataBuffer m' = fst (applySync (syncData f) m)"
  shows "applySync (syncData g) m' = (dataBuffer m', False)"
proof -
  have "\<forall>oid \<in> set (monitoredObjects m'). \<forall>v. map_of (syncData g) (toString oid) = Some v \<longrightarrow>
          \<not> strictNotEqual (map_of (dataBuffer m') (toString oid)) v"
  proof (intro ballI allI impI)
    fix oid v
    assume oid: "oid \<in> set (monitoredObjects m')" and v: "map_of (syncData g) (toString oid) = Some v"
    from oid m' same v have fv: "map_of (syncData f) (toString oid) = Some v" by simp
    with oid m' noobj have "\<not> isObject v" by (auto simp: isObject_def split: jsval.splits)
    moreover have "map_of (dataBuffer m') (toString oid) = Some v"
      using oid m' fv by (simp add: applySync_def foldl_updateObject_lookup)
    ultimately show "\<not> strictNotEqual (map_of (dataBuffer m') (toString oid)) v"
      by (simp add: strictNotEqual_def)
  qed
  then show ?thesis unfolding applySync_def by (rule foldl_updateObject_fixed)
qed

lemma applySync_differs:
  assumes "oid \<in> set (monitoredObjects m)"
    and "map_of (syncData f) (toString oid) = Some u" "map_of (syncData h) (toString oid) = Some v"
    and "u \<noteq> v"
    and m': "monitoredObjects m' = monitoredObjects m"
            "dataBuffer m' = fst (applySync (syncData f) m)"
  shows "snd (applySync (syncData h) m')"
proof -
  have "map_of (dataBuffer m') (toString oid) = Some u"
    using assms by (simp add: applySync_def foldl_updateObject_lookup)
  then have "strictNotEqual (map_of (dataBuffer m') (toString oid)) v"
    using assms(4) by (simp add: strictNotEqual_def)
  with assms show ?thesis
    unfolding applySync_def by (intro foldl_updateObject_changed [of oid _ _ v]) simp_all
qed

lemma fst_tableOrder:
  "fst ` set tableOrder = fst ` set activePowerMap \<union> fst ` set muxPowerMap \<union> set directFields"
  by (auto simp: tableOrder_def image_Un image_image)

lemma saveToDatabase_syncData:
  "saveToDatabase js (f\<lparr>syncData := x\<rparr>) m = saveToDatabase js f m"
  by (simp add: saveToDatabase_def tooSoon_def Let_def
        cong: option.case_cong sum.case_cong if_cong)

lemma draws_Cons:
  "draws js ((oid, value) # es) =
     (if \<not> typeofObject value \<and> parseFloat js value = None then Suc (draws js es) else draws js es)"
  by (simp add: draws_def)

lemma draws_Nil: "draws js [] = 0"
  by (simp add: draws_def)

lemma rangeWarnings_not_invalid: "InvalidNumeric k raw \<notin> set (rangeWarnings js oid x)"
  by (simp add: rangeWarnings_def split: option.splits)

lemma validateEntries_invalid:
  "InvalidNumeric k raw \<in> set (validateEntries js rnd es n ws) \<longleftrightarrow>
     InvalidNumeric k raw \<in> set ws \<or>
     (\<exists>i<length es. es ! i = (k, raw) \<and> \<not> typeofObject raw \<and> parseFloat js raw = None
         \<and> rnd (n + draws js (take i es)) < 0.1)"
proof (induction es arbitrary: n ws)
  case Nil
  then show ?case by simp
next
  case (Cons e es)
  obtain oid v where e: "e = (oid, v)" by (cases e)
  let ?P = "\<lambda>es n i. es ! i = (k, raw) \<and> \<not> typeofObject raw \<and> parseFloat js raw = None
         \<and> rnd (n + draws js (take i es)) < 0.1"
  have split: "(\<exists>i<length (e # es). ?P (e # es) n i) \<longleftrightarrow>
      ?P (e # es) n 0 \<or> (\<exists>j<length es. ?P (e # es) n (Suc j))"
    by (auto simp: less_Suc_eq_0_disj)
  have zero: "?P (e # es) n 0 \<longleftrightarrow>
      (oid, v) = (k, raw) \<and> \<not> typeofObject v \<and> parseFloat js v = None \<and> rnd n < 0.1"
    by (auto simp: e draws_Nil)
  show ?case
  proof (cases "\<not> typeofObject v \<and> parseFloat js v = None")
    case True
    then have suc: "?P (e # es) n (Suc j) \<longleftrightarrow> ?P es (Suc n) j" for j
      by (simp add: e draws_Cons)
    show ?thesis
    proof (cases "rnd n < 0.1")
      case yes: True
      from True yes have "validateEntries js rnd (e # es) n ws =
          validateEntries js rnd es (Suc n) (ws @ [InvalidNumeric oid v])" by (simp add: e)
      then show ?thesis
        unfolding split zero suc using True yes
        by (auto simp: Cons.IH [of "Suc n" "ws @ [InvalidNumeric oid v]"])
    next
      case no: False
      from True no have "validateEntries js rnd (e # es) n ws =
          validateEntries js rnd es (Suc n) ws" by (simp add: e)
      then show ?thesis
        unfolding split zero suc using True no
        by (auto simp: Cons.IH [of "Suc n" ws])
    qed
  next
    case False
    then have suc: "?P (e # es) n (Suc j) \<longleftrightarrow> ?P es n j" for j
      by (auto simp: e draws_Cons)
    show ?thesis
    proof (cases "typeofObject v")
      case True
      then have "validateEntries js rnd (e # es) n ws = validateEntries js rnd es n ws"
        by (simp add: e)
      then show ?thesis
        unfolding split zero suc using True
        by (auto simp: Cons.IH [of n ws])
    next
      case notobj: False
      with False obtain x where x: "parseFloat js v = Some x" by auto
      with notobj have "validateEntries js rnd (e # es) n ws =
          validateEntries js rnd es n (ws @ rangeWarnings js oid x)" by (simp add: e)
      then show ?thesis
        unfolding split zero suc using x
        by (auto simp: Cons.IH [of n "ws @ rangeWarnings js oid x"] rangeWarnings_not_invalid)
    qed
  qed
qed

lemma transform_last_writer:
  assumes "filter (\<lambda>(k, fld). fld = field \<and> hasOwnProperty obj k) tableOrder = ws @ [(k, field)]"
  shows "transformLoops js obj field =
           Some (nullIfNaN (parseFloat js (the (map_of obj k))))"
proof -
  obtain w ws' where c: "ws @ [(k, field)] = w # ws'" by (cases ws) auto
  then have "last (w # ws') = (k, field)" by (metis last_snoc)
  with assms c show ?thesis
    by (simp add: transformLoops_foldl foldl_transformEntry_last)
qed

lemmas eval_defs = exampleMonitor_def exampleFrame_def constantDraws_def runMonitor_def
  startedSave_def writtenRow_def displayData_def convertible_def throwsOnConversion_def
  parsedValues_def tableOrder_def isObject_def
  onMonitorEvent_def updateData_def monitorOf_def resumeSave_def applySync_def updateObject_def
  saveToDatabase_def tooSoon_def validatePowerData_def createPowerReading_def
  transformPowerData_def transformLoops_def shadowsHasOwnProperty_def
  transformEntry_def activePowerMap_entries muxPowerMap_entries directFields_def
  toString_def natToString.simps digitChar_def setProp_def hasOwnProperty_def
  arrayIndex_def isDigit_def digitsValue_def strictNotEqual_def dbSaveInterval_def
  nullIfNaN_def exampleBuiltins_def Let_def

section \<open>Resolution of raw object IDs\<close>

text \<open>
  Claim C1, as stated, does not hold. A station whose own rows list the raw ID 18053 as
  its \<open>muxPower5\<close> monitors that ID, but the value is stored in the column the global
  table of \<open>transformPowerData\<close> gives to 18053, which is \<open>muxPower6\<close>; the station's
  column stays empty.
\<close>

theorem station_map_overrides_alias_counterexample:
  "loadMonitoredObjects [8684, 8685] [(''muxPower5'', 18053)] = [18053]
   \<and> length (powerReadings (runMonitor exampleBuiltins
        [Notification (exampleFrame 0 [(''18053'', JNumber 7)]), Settled 0 True]
        (exampleMonitor (loadMonitoredObjects [8684, 8685] [(''muxPower5'', 18053)])))) = 1
   \<and> rowData (hd (powerReadings (runMonitor exampleBuiltins
        [Notification (exampleFrame 0 [(''18053'', JNumber 7)]), Settled 0 True]
        (exampleMonitor (loadMonitoredObjects [8684, 8685] [(''muxPower5'', 18053)]))))) ''muxPower5''
       = None
   \<and> rowData (hd (powerReadings (runMonitor exampleBuiltins
        [Notification (exampleFrame 0 [(''18053'', JNumber 7)]), Settled 0 True]
        (exampleMonitor (loadMonitoredObjects [8684, 8685] [(''muxPower5'', 18053)]))))) ''muxPower6''
       = Some (Num 7)"
  by (simp add: eval_defs loadMonitoredObjects_def objectIds_def)

text \<open>
  Claim C1, amended. The station's map only selects which raw IDs are kept: after a frame
  the buffer has no key besides those it had and the monitored IDs. What is kept is
  resolved by the global tables alone: \<open>transformPowerData\<close> throws on an object that
  shadows \<open>hasOwnProperty\<close> or has, at a key of the tables, a value that cannot be
  converted; on every other object a column holds the value of the last pair of
  \<open>tableOrder\<close> that names the column and whose key the object has, and no value when
  there is no such pair. (Within the MUX table the later pair is the one with
  the larger raw ID; a key that is itself a column name comes last.)
\<close>

theorem resolution_by_global_tables:
  "fst ` set (dataBuffer (monitorOf (updateData js f m)))
      \<subseteq> fst ` set (dataBuffer m) \<union> toString ` set (monitoredObjects m)
   \<and> transformPowerData js (Object obj) =
      (if shadowsHasOwnProperty obj \<or> list_ex throwsOnConversion (parsedValues obj)
       then Inl TypeError
       else Inr (\<lambda>field.
         case filter (\<lambda>(k, fld). fld = field \<and> hasOwnProperty obj k) tableOrder of
           [] \<Rightarrow> None
         | w # ws \<Rightarrow> Some (nullIfNaN (parseFloat js (the (map_of obj (fst (last (w # ws)))))))))"
proof -
  have "fst ` set (fst (applySync (syncData f) m))
      \<subseteq> fst ` set (dataBuffer m) \<union> toString ` set (monitoredObjects m)"
    by (simp add: applySync_def foldl_updateObject_keys)
  then have 1: "fst ` set (dataBuffer (monitorOf (updateData js f m)))
      \<subseteq> fst ` set (dataBuffer m) \<union> toString ` set (monitoredObjects m)"
    by (auto simp: notification_buffer)
  have "transformLoops js obj = (\<lambda>field.
         case filter (\<lambda>(k, fld). fld = field \<and> hasOwnProperty obj k) tableOrder of
           [] \<Rightarrow> None
         | w # ws \<Rightarrow> Some (nullIfNaN (parseFloat js (the (map_of obj (fst (last (w # ws))))))))"
    unfolding transformLoops_foldl by (rule ext) (simp add: foldl_transformEntry_last)
  then have 2: "transformPowerData js (Object obj) =
      (if shadowsHasOwnProperty obj \<or> list_ex throwsOnConversion (parsedValues obj)
       then Inl TypeError
       else Inr (\<lambda>field.
         case filter (\<lambda>(k, fld). fld = field \<and> hasOwnProperty obj k) tableOrder of
           [] \<Rightarrow> None
         | w # ws \<Rightarrow> Some (nullIfNaN (parseFloat js (the (map_of obj (fst (last (w # ws)))))))))"
    by (simp add: transformPowerData_Object)
  from 1 2 show ?thesis by (rule conjI)
qed

theorem resolution_by_global_tables_witness:
  "\<not> (shadowsHasOwnProperty [(''18053'', JNumber 7)]
        \<or> list_ex throwsOnConversion (parsedValues [(''18053'', JNumber 7)]))
   \<and> (\<exists>dbData. transformPowerData exampleBuiltins (Object [(''18053'', JNumber 7)]) = Inr dbData
        \<and> dbData ''muxPower6'' = Some (Num 7) \<and> dbData ''muxPower5'' = None)
   \<and> shadowsHasOwnProperty [(''18053'', JNumber 7), (''hasOwnProperty'', JNumber 1)]
   \<and> transformPowerData exampleBuiltins
        (Object [(''18053'', JNumber 7), (''hasOwnProperty'', JNumber 1)]) = Inl TypeError
   \<and> list_ex throwsOnConversion (parsedValues [(''18053'', JObject None)])
   \<and> transformPowerData exampleBuiltins (Object [(''18053'', JObject None)]) = Inl TypeError"
proof -
  let ?obj = "[(''18053'', JNumber 7)]"
  let ?shadow = "[(''18053'', JNumber 7), (''hasOwnProperty'', JNumber 1)]"
  let ?bad = "[(''18053'', JObject None)]"
  let ?f = "exampleFrame 0 ?obj"
  let ?m = "exampleMonitor [18053]"
  have g: "\<not> (shadowsHasOwnProperty ?obj \<or> list_ex throwsOnConversion (parsedValues ?obj))"
    by (simp add: shadowsHasOwnProperty_def hasOwnProperty_def parsedValues_def tableOrder_def
          activePowerMap_entries muxPowerMap_entries directFields_def throwsOnConversion_def)
  have s: "shadowsHasOwnProperty ?shadow"
    by (simp add: shadowsHasOwnProperty_def hasOwnProperty_def)
  have b: "list_ex throwsOnConversion (parsedValues ?bad)"
    by (simp add: parsedValues_def tableOrder_def activePowerMap_entries muxPowerMap_entries
          directFields_def throwsOnConversion_def)
  have 6: "filter (\<lambda>(k, fld). fld = ''muxPower6'' \<and> hasOwnProperty ?obj k) tableOrder
            = [(''18053'', ''muxPower6'')]"
    and 5: "filter (\<lambda>(k, fld). fld = ''muxPower5'' \<and> hasOwnProperty ?obj k) tableOrder = []"
    by (simp_all add: tableOrder_def activePowerMap_entries muxPowerMap_entries directFields_def
          hasOwnProperty_def)
  have p: "parseFloat exampleBuiltins (JNumber 7) = Some 7" by (simp add: exampleBuiltins_def)
  from resolution_by_global_tables [of exampleBuiltins ?f ?m ?obj] g
  have "transformPowerData exampleBuiltins (Object ?obj) =
      Inr (\<lambda>field.
         case filter (\<lambda>(k, fld). fld = field \<and> hasOwnProperty ?obj k) tableOrder of
           [] \<Rightarrow> None
         | w # ws \<Rightarrow> Some (nullIfNaN (parseFloat exampleBuiltins
                      (the (map_of ?obj (fst (last (w # ws))))))))"
    by simp
  then have r1: "\<exists>dbData. transformPowerData exampleBuiltins (Object ?obj) = Inr dbData
        \<and> dbData ''muxPower6'' = Some (Num 7) \<and> dbData ''muxPower5'' = None"
    by (simp add: 5 6 p nullIfNaN_def)
  from resolution_by_global_tables [of exampleBuiltins ?f ?m ?shadow] s
  have r2: "transformPowerData exampleBuiltins (Object ?shadow) = Inl TypeError" by simp
  from resolution_by_global_tables [of exampleBuiltins ?f ?m ?bad] b
  have r3: "transformPowerData exampleBuiltins (Object ?bad) = Inl TypeError" by simp
  from g r1 s r2 b r3 show ?thesis by blast
qed

section \<open>Unknown raw IDs\<close>

text \<open>
  Claim C5. Let \<open>k\<close> be a key that the station does not monitor, that no table of
  \<open>transformPowerData\<close> knows and that is not \<open>hasOwnProperty\<close>; every raw ID, being a
  string of digits, is not (\<open>raw_id_not_method\<close>). Such a key leaves no trace and causes no failure: a frame
  carrying it is handled exactly as the frame without it, with the same monitor and the
  same outcome (returned or thrown), and an object holding it is transformed exactly as
  the object without it, with the same row or the same error. A row that comes out has no
  column named after the key (so no \<open>null\<close> for it either). When the frame does not
  shadow \<open>hasOwnProperty\<close> and leaves a buffer that can be displayed, \<open>updateData\<close>
  returns with the key present; when the object does not shadow \<open>hasOwnProperty\<close> and
  its values at the keys of the tables can be converted, \<open>transformPowerData\<close> gives a
  row with the key present.
\<close>

theorem unknown_id_is_dropped:
  assumes "k \<notin> toString ` set (monitoredObjects m)"
    and "k \<notin> fst ` set activePowerMap \<union> fst ` set muxPowerMap \<union> set directFields"
    and "k \<noteq> ''hasOwnProperty''"
  shows "updateData js (f\<lparr>syncData := setProp (syncData f) k v\<rparr>) m = updateData js f m
       \<and> transformPowerData js (Object (setProp obj k v)) = transformPowerData js (Object obj)
       \<and> (\<forall>dbData. transformPowerData js (Object (setProp obj k v)) = Inr dbData \<longrightarrow> dbData k = None)
       \<and> (\<not> shadowsHasOwnProperty (syncData f) \<and> convertible (fst (applySync (syncData f) m)) \<longrightarrow>
            (\<exists>m'. updateData js (f\<lparr>syncData := setProp (syncData f) k v\<rparr>) m = Returned m'))
       \<and> (\<not> shadowsHasOwnProperty obj \<and> \<not> list_ex throwsOnConversion (parsedValues obj) \<longrightarrow>
            (\<exists>dbData. transformPowerData js (Object (setProp obj k v)) = Inr dbData))"
proof -
  have s: "shadowsHasOwnProperty (setProp x k v) = shadowsHasOwnProperty x" for x :: "jsval jsobject"
    using assms(3) by (simp add: shadows_setProp)
  have "applySync (setProp (syncData f) k v) m = applySync (syncData f) m"
    using assms(1) by (intro applySync_cong) (auto simp: map_of_setProp)
  then have a: "updateData js (f\<lparr>syncData := setProp (syncData f) k v\<rparr>) m = updateData js f m"
    by (cases "applySync (syncData f) m")
       (auto simp: updateData_def s applySync_lastUpdate saveToDatabase_syncData Let_def
          split: option.splits)
  have t: "\<forall>e \<in> set tableOrder. map_of (setProp obj k v) (fst e) = map_of obj (fst e)"
    using assms(2) by (auto simp: map_of_setProp fst_tableOrder [symmetric])
  then have "transformLoops js (setProp obj k v) = transformLoops js obj"
    unfolding transformLoops_foldl by (rule foldl_transformEntry_cong)
  moreover from t have p: "parsedValues (setProp obj k v) = parsedValues obj"
    by (rule parsedValues_cong)
  ultimately
  have b: "transformPowerData js (Object (setProp obj k v)) = transformPowerData js (Object obj)"
    by (simp add: transformPowerData_Object s)
  have "k \<notin> dom (transformLoops js (setProp obj k v))"
    using foldl_transformEntry_dom [of js "setProp obj k v" Map.empty tableOrder] assms(2)
    by (auto simp: transformLoops_foldl snd_tableOrder)
  then have "transformLoops js (setProp obj k v) k = None" by blast
  then have c: "\<forall>dbData. transformPowerData js (Object (setProp obj k v)) = Inr dbData \<longrightarrow>
      dbData k = None"
    by (auto simp: transformPowerData_Object split: if_splits)
  have d: "\<exists>m'. updateData js (f\<lparr>syncData := setProp (syncData f) k v\<rparr>) m = Returned m'"
    if "\<not> shadowsHasOwnProperty (syncData f)" "convertible (fst (applySync (syncData f) m))"
    unfolding a using that
    by (cases "applySync (syncData f) m")
       (simp add: updateData_def displayData_def applySync_lastUpdate Let_def)
  have e: "\<exists>dbData. transformPowerData js (Object (setProp obj k v)) = Inr dbData"
    if "\<not> shadowsHasOwnProperty obj" "\<not> list_ex throwsOnConversion (parsedValues obj)"
    using that by (simp add: transformPowerData_Object s p)
  from a b c d e show ?thesis by blast
qed

theorem unknown_id_is_dropped_witness:
  "''99999'' \<notin> toString ` set (monitoredObjects (exampleMonitor [8684]))
   \<and> ''99999'' \<notin> fst ` set activePowerMap \<union> fst ` set muxPowerMap \<union> set directFields
   \<and> ''99999'' \<noteq> ''hasOwnProperty''
   \<and> \<not> shadowsHasOwnProperty [(''8684'', JNumber 5)]
   \<and> \<not> list_ex throwsOnConversion (parsedValues [(''8684'', JNumber 5)])
   \<and> updateData exampleBuiltins
        ((exampleFrame 0 [(''8684'', JNumber 5)])
           \<lparr>syncData := setProp (syncData (exampleFrame 0 [(''8684'', JNumber 5)])) ''99999'' (JNumber 7)\<rparr>)
        (exampleMonitor [8684])
      = updateData exampleBuiltins (exampleFrame 0 [(''8684'', JNumber 5)]) (exampleMonitor [8684])
   \<and> transformPowerData exampleBuiltins
        (Object (setProp [(''8684'', JNumber 5)] ''99999'' (JNumber 7))) =
      transformPowerData exampleBuiltins (Object [(''8684'', JNumber 5)])
   \<and> (\<exists>dbData. transformPowerData exampleBuiltins
        (Object (setProp [(''8684'', JNumber 5)] ''99999'' (JNumber 7))) = Inr dbData
        \<and> dbData ''99999'' = None)"
proof -
  let ?m = "exampleMonitor [8684]"
  let ?f = "exampleFrame 0 [(''8684'', JNumber 5)]"
  have h1: "''99999'' \<notin> toString ` set (monitoredObjects ?m)"
    by (simp add: exampleMonitor_def toString_def natToString.simps digitChar_def)
  have h2: "''99999'' \<notin> fst ` set activePowerMap \<union> fst ` set muxPowerMap \<union> set directFields"
    by (simp add: activePowerMap_entries muxPowerMap_entries directFields_def)
  have h3: "''99999'' \<noteq> ''hasOwnProperty''" by simp
  have h4: "\<not> shadowsHasOwnProperty [(''8684'', JNumber 5)]"
    by (simp add: shadowsHasOwnProperty_def hasOwnProperty_def)
  have h5: "\<not> list_ex throwsOnConversion (parsedValues [(''8684'', JNumber 5)])"
    by (rule convertible_parsed) (simp add: convertible_def throwsOnConversion_def)
  note c = unknown_id_is_dropped [OF h1 h2 h3, of exampleBuiltins ?f "JNumber 7" "[(''8684'', JNumber 5)]"]
  from c h4 h5 have "\<exists>dbData. transformPowerData exampleBuiltins
        (Object (setProp [(''8684'', JNumber 5)] ''99999'' (JNumber 7))) = Inr dbData
        \<and> dbData ''99999'' = None" by blast
  with c h1 h2 h3 h4 h5 show ?thesis by blast
qed

section \<open>Values that do not parse\<close>

text \<open>
  Claim C6, as stated, does not hold in its middle part. With a random draw of 0.5 the
  value \<open>bad\<close> of object 8684 is stored as \<open>null\<close> and the row is written, but no
  warning is recorded.
\<close>

theorem unparseable_value_warning_counterexample:
  "parseFloat exampleBuiltins (JString ''bad'') = None
   \<and> warnings (validatePowerData exampleBuiltins (random (exampleFrame 0 [(''8684'', JString ''bad'')]))
        (Object [(''8684'', JString ''bad'')])) = []
   \<and> length (powerReadings (runMonitor exampleBuiltins
        [Notification (exampleFrame 0 [(''8684'', JString ''bad'')]), Settled 0 True]
        (exampleMonitor [8684]))) = 1
   \<and> rowData (hd (powerReadings (runMonitor exampleBuiltins
        [Notification (exampleFrame 0 [(''8684'', JString ''bad'')]), Settled 0 True]
        (exampleMonitor [8684])))) ''activePower1''
       = Some Null"
  by (simp add: eval_defs typeofObject_def)

text \<open>
  Claim C6, amended. Validation never rejects an object, whatever its values. On an object
  that \<open>transformPowerData\<close> does not throw on (it does not shadow \<open>hasOwnProperty\<close>
  and its values at the keys of the tables can be converted), a value that does not parse
  makes its column \<open>null\<close> when its key is the last one that \<open>transformPowerData\<close>
  visits among the keys of the object that name this column; a key visited later
  overwrites the \<open>null\<close>. The save does not ask whether the values parse: a changed
  frame that can be displayed and is handled when no save is throttling or in flight is
  written as soon as the store accepts the row. A warning for the value is recorded
  exactly when the value is not of type object, does not parse, and the draw made for its
  entry is below 0.1.
\<close>

theorem unparseable_value_becomes_null:
  "isValid (validatePowerData js rnd (Object obj))
   \<and> (\<not> shadowsHasOwnProperty obj \<and> \<not> list_ex throwsOnConversion (parsedValues obj)
        \<and> filter (\<lambda>(k, fld). fld = field \<and> hasOwnProperty obj k) tableOrder = ws @ [(k, field)]
        \<and> map_of obj k = Some raw \<and> parseFloat js raw = None
      \<longrightarrow> transformPowerData js (Object obj) = Inr (transformLoops js obj)
          \<and> transformLoops js obj field = Some Null)
   \<and> (databaseService m \<and> stationRecord m = Some sid \<and> sid \<noteq> [] \<and> \<not> tooSoon f m
        \<and> snd (applySync (syncData f) m) \<and> \<not> shadowsHasOwnProperty (syncData f)
        \<and> convertible (fst (applySync (syncData f) m))
        \<and> \<not> shadowsHasOwnProperty (dataBuffer m) \<and> suspended m = []
      \<longrightarrow> powerReadings (runMonitor js [Notification f, Settled 0 True] m) =
            powerReadings m @ [writtenRow js sid f m])
   \<and> (InvalidNumeric k raw \<in> set (warnings (validatePowerData js rnd (Object obj))) \<longleftrightarrow>
        (\<exists>i<length obj. obj ! i = (k, raw) \<and> \<not> typeofObject raw \<and> parseFloat js raw = None
            \<and> rnd (draws js (take i obj)) < 0.1))"
proof -
  have 1: "isValid (validatePowerData js rnd (Object obj))"
    by (simp add: validatePowerData_def)
  have 2: "transformPowerData js (Object obj) = Inr (transformLoops js obj)
          \<and> transformLoops js obj field = Some Null"
    if "\<not> shadowsHasOwnProperty obj" "\<not> list_ex throwsOnConversion (parsedValues obj)"
      "filter (\<lambda>(k, fld). fld = field \<and> hasOwnProperty obj k) tableOrder = ws @ [(k, field)]"
      "map_of obj k = Some raw" "parseFloat js raw = None"
    using transform_last_writer [OF that(3), of js] that(1,2,4,5)
    by (simp add: nullIfNaN_def transformPowerData_Object)
  have 3: "powerReadings (runMonitor js [Notification f, Settled 0 True] m) =
            powerReadings m @ [writtenRow js sid f m]"
    if "databaseService m" "stationRecord m = Some sid" "sid \<noteq> []" "\<not> tooSoon f m"
      "snd (applySync (syncData f) m)" "\<not> shadowsHasOwnProperty (syncData f)"
      "convertible (fst (applySync (syncData f) m))"
      "\<not> shadowsHasOwnProperty (dataBuffer m)" "suspended m = []"
    using write_completed [OF that, of js] by simp
  have 4: "InvalidNumeric k raw \<in> set (warnings (validatePowerData js rnd (Object obj))) \<longleftrightarrow>
        (\<exists>i<length obj. obj ! i = (k, raw) \<and> \<not> typeofObject raw \<and> parseFloat js raw = None
            \<and> rnd (draws js (take i obj)) < 0.1)"
    using validateEntries_invalid [of k raw js rnd obj 0 "[]"]
    by (simp add: validatePowerData_def)
  from 1 2 3 4 show ?thesis by blast
qed

theorem unparseable_value_becomes_null_witness:
  "\<not> shadowsHasOwnProperty [(''8684'', JString ''bad'')]
   \<and> \<not> list_ex throwsOnConversion (parsedValues [(''8684'', JString ''bad'')])
   \<and> filter (\<lambda>(k, fld). fld = ''activePower1'' \<and> hasOwnProperty [(''8684'', JString ''bad'')] k)
      tableOrder = [] @ [(''8684'', ''activePower1'')]
   \<and> map_of [(''8684'', JString ''bad'')] ''8684'' = Some (JString ''bad'')
   \<and> parseFloat exampleBuiltins (JString ''bad'') = None
   \<and> \<not> typeofObject (JString ''bad'')
   \<and> transformPowerData exampleBuiltins (Object [(''8684'', JString ''bad'')]) =
        Inr (transformLoops exampleBuiltins [(''8684'', JString ''bad'')])
   \<and> transformLoops exampleBuiltins [(''8684'', JString ''bad'')] ''activePower1'' = Some Null
   \<and> length (powerReadings (runMonitor exampleBuiltins
        [Notification (exampleFrame 0 [(''8684'', JString ''bad'')]), Settled 0 True]
        (exampleMonitor [8684]))) = 1
   \<and> InvalidNumeric ''8684'' (JString ''bad'') \<notin> set (warnings (validatePowerData exampleBuiltins
        (constantDraws 0.5) (Object [(''8684'', JString ''bad'')])))
   \<and> InvalidNumeric ''8684'' (JString ''bad'') \<in> set (warnings (validatePowerData exampleBuiltins
        (constantDraws 0.05) (Object [(''8684'', JString ''bad'')])))
   \<and> transformPowerData exampleBuiltins
        (Object [(''75428'', JString ''bad''), (''224272'', JNumber 5)]) =
      Inr (transformLoops exampleBuiltins [(''75428'', JString ''bad''), (''224272'', JNumber 5)])
   \<and> transformLoops exampleBuiltins [(''75428'', JString ''bad''), (''224272'', JNumber 5)] ''muxPower5''
      = Some (Num 5)"
proof -
  let ?obj = "[(''8684'', JString ''bad'')]"
  let ?m = "exampleMonitor [8684]"
  let ?f = "exampleFrame 0 ?obj"
  have a0: "\<not> shadowsHasOwnProperty ?obj"
    by (simp add: shadowsHasOwnProperty_def hasOwnProperty_def)
  have a0': "\<not> list_ex throwsOnConversion (parsedValues ?obj)"
    by (rule convertible_parsed) (simp add: convertible_def throwsOnConversion_def)
  have a1: "filter (\<lambda>(k, fld). fld = ''activePower1'' \<and> hasOwnProperty ?obj k) tableOrder
            = [] @ [(''8684'', ''activePower1'')]"
    by (simp add: tableOrder_def activePowerMap_entries muxPowerMap_entries directFields_def
          hasOwnProperty_def)
  have a2: "map_of ?obj ''8684'' = Some (JString ''bad'')" by simp
  have a3: "parseFloat exampleBuiltins (JString ''bad'') = None"
    by (simp add: exampleBuiltins_def isDigit_def)
  have a4: "\<not> typeofObject (JString ''bad'')" by (simp add: typeofObject_def isObject_def)
  have b: "databaseService ?m" "stationRecord ?m = Some ''s1''" "''s1'' \<noteq> []" "\<not> tooSoon ?f ?m"
    "\<not> shadowsHasOwnProperty (syncData ?f)" "\<not> shadowsHasOwnProperty (dataBuffer ?m)"
    "suspended ?m = []"
    by (simp_all add: exampleMonitor_def exampleFrame_def tooSoon_def shadowsHasOwnProperty_def
          hasOwnProperty_def)
  have b5: "snd (applySync (syncData ?f) ?m)" "convertible (fst (applySync (syncData ?f) ?m))"
    by (simp_all add: eval_defs)
  note q = unparseable_value_becomes_null [of exampleBuiltins "constantDraws 0.5" ?obj
      "''activePower1''" "[]" "''8684''" "JString ''bad''" ?m "''s1''" ?f]
  note l = unparseable_value_becomes_null [of exampleBuiltins "constantDraws 0.05" ?obj
      "''activePower1''" "[]" "''8684''" "JString ''bad''" ?m "''s1''" ?f]
  from q a0 a0' a1 a2 a3
  have r1: "transformPowerData exampleBuiltins (Object ?obj) =
        Inr (transformLoops exampleBuiltins ?obj)"
    "transformLoops exampleBuiltins ?obj ''activePower1'' = Some Null"
    by blast+
  from q b b5 have "powerReadings (runMonitor exampleBuiltins [Notification ?f, Settled 0 True] ?m) =
            powerReadings ?m @ [writtenRow exampleBuiltins ''s1'' ?f ?m]"
    by blast
  then have r2: "length (powerReadings (runMonitor exampleBuiltins
        [Notification ?f, Settled 0 True] ?m)) = 1"
    by (simp add: exampleMonitor_def)
  have d: "draws exampleBuiltins (take 0 ?obj) = 0" by (simp add: draws_def)
  have "\<not> (\<exists>i<length ?obj. ?obj ! i = (''8684'', JString ''bad'') \<and> \<not> typeofObject (JString ''bad'')
            \<and> parseFloat exampleBuiltins (JString ''bad'') = None
            \<and> constantDraws 0.5 (draws exampleBuiltins (take i ?obj)) < 0.1)"
    by (simp add: constantDraws_def)
  with q have r3: "InvalidNumeric ''8684'' (JString ''bad'') \<notin>
      set (warnings (validatePowerData exampleBuiltins (constantDraws 0.5) (Object ?obj)))"
    by blast
  have "\<exists>i<length ?obj. ?obj ! i = (''8684'', JString ''bad'') \<and> \<not> typeofObject (JString ''bad'')
            \<and> parseFloat exampleBuiltins (JString ''bad'') = None
            \<and> constantDraws 0.05 (draws exampleBuiltins (take i ?obj)) < 0.1"
    using a3 a4 by (simp add: constantDraws_def)
  with l have r4: "InvalidNumeric ''8684'' (JString ''bad'') \<in>
      set (warnings (validatePowerData exampleBuiltins (constantDraws 0.05) (Object ?obj)))"
    by blast
  have r5: "transformPowerData exampleBuiltins
        (Object [(''75428'', JString ''bad''), (''224272'', JNumber 5)]) =
      Inr (transformLoops exampleBuiltins [(''75428'', JString ''bad''), (''224272'', JNumber 5)])"
    by (simp add: transformPowerData_Object shadowsHasOwnProperty_def hasOwnProperty_def
          convertible_parsed convertible_def throwsOnConversion_def)
  have r6: "transformLoops exampleBuiltins [(''75428'', JString ''bad''), (''224272'', JNumber 5)]
      ''muxPower5'' = Some (Num 5)"
    by (simp add: eval_defs)
  from a0 a0' a1 a2 a3 a4 r1 r2 r3 r4 r5 r6 show ?thesis by blast
qed

section \<open>The throttled save\<close>

text \<open>
  Claim C2, as stated, does not hold. Two changed readings are handled 3 seconds apart,
  inside one window of 10 seconds. When the first write is confirmed before the second
  reading is handled, one row is written, and it holds the value of the first reading
  (1), not of the most recent one (2). When the second reading is handled while the first
  write is still in flight, both are written: two rows for the one window.
\<close>

theorem debounce_last_wins_counterexample:
  "length (powerReadings (runMonitor exampleBuiltins
      [Notification (exampleFrame 0 [(''8684'', JNumber 1)]), Settled 0 True,
       Notification (exampleFrame 3000 [(''8684'', JNumber 2)]), Settled 0 True]
      (exampleMonitor [8684]))) = 1
   \<and> rowData (hd (powerReadings (runMonitor exampleBuiltins
      [Notification (exampleFrame 0 [(''8684'', JNumber 1)]), Settled 0 True,
       Notification (exampleFrame 3000 [(''8684'', JNumber 2)]), Settled 0 True]
      (exampleMonitor [8684])))) ''activePower1''
       = Some (Num 1)
   \<and> suspended (runMonitor exampleBuiltins
      [Notification (exampleFrame 0 [(''8684'', JNumber 1)]), Settled 0 True,
       Notification (exampleFrame 3000 [(''8684'', JNumber 2)]), Settled 0 True]
      (exampleMonitor [8684])) = []
   \<and> length (powerReadings (runMonitor exampleBuiltins
      [Notification (exampleFrame 0 [(''8684'', JNumber 1)]),
       Notification (exampleFrame 3000 [(''8684'', JNumber 2)]), Settled 0 True, Settled 0 True]
      (exampleMonitor [8684]))) = 2"
  by (simp add: eval_defs)

text \<open>
  Claim C2, amended. Take a monitor with a database service and a station record with a
  non-empty id, with no save in flight, and a changed reading \<open>f\<close> that is handled when no
  confirmed save is less than \<open>dbSaveInterval\<close> old. (Neither the frame nor the buffer
  shadows \<open>hasOwnProperty\<close>, and the buffer can be displayed once the frame is in it;
  the same is asked of the frame \<open>h\<close> below.) Its write is started at once, with its
  own values, and \<open>lastDbSave\<close> stays as it was. Once the store has confirmed the
  write, \<open>lastDbSave\<close> is the time at which \<open>f\<close> was handled and the window is open:
  whatever readings are handled less than \<open>dbSaveInterval\<close> after \<open>f\<close>, changed or not, none of
  them is written, so the window has exactly one row, with the values of the reading that
  opened it. A changed reading \<open>h\<close> that is handled while the write of \<open>f\<close> is still in
  flight, and that no earlier save throttles, is not throttled by that write: a second
  write is started, and with both confirmed there are two rows.
\<close>

theorem throttle_first_reading_wins:
  assumes "databaseService m" "stationRecord m = Some sid" "sid \<noteq> []" "\<not> tooSoon f m"
    and "snd (applySync (syncData f) m)" "\<not> shadowsHasOwnProperty (syncData f)"
    and "convertible (fst (applySync (syncData f) m))"
    and "\<not> shadowsHasOwnProperty (dataBuffer m)" "suspended m = []"
  shows "suspended (onMonitorEvent js m (Notification f)) = [startedSave sid f m]
       \<and> lastDbSave (onMonitorEvent js m (Notification f)) = lastDbSave m
       \<and> lastDbSave (runMonitor js [Notification f, Settled 0 True] m) = Some (now f)
       \<and> ((\<forall>g \<in> set gs. now g - now f < dbSaveInterval) \<longrightarrow>
            powerReadings (runMonitor js ([Notification f, Settled 0 True] @ map Notification gs) m) =
              powerReadings m @ [writtenRow js sid f m]
            \<and> suspended (runMonitor js ([Notification f, Settled 0 True] @ map Notification gs) m) = [])
       \<and> (\<not> tooSoon h m \<and> \<not> shadowsHasOwnProperty (syncData h)
            \<and> snd (applySync (syncData h) (onMonitorEvent js m (Notification f)))
            \<and> convertible (fst (applySync (syncData h) (onMonitorEvent js m (Notification f)))) \<longrightarrow>
            suspended (runMonitor js [Notification f, Notification h] m) =
              [startedSave sid f m, startedSave sid h (onMonitorEvent js m (Notification f))]
            \<and> powerReadings (runMonitor js
                [Notification f, Notification h, Settled 0 True, Settled 0 True] m) =
              powerReadings m @
                [writtenRow js sid f m, writtenRow js sid h (onMonitorEvent js m (Notification f))])"
proof -
  have 1: "suspended (onMonitorEvent js m (Notification f)) = [startedSave sid f m]"
    "lastDbSave (onMonitorEvent js m (Notification f)) = lastDbSave m"
    using write_started [OF assms(1,2,4,5,6,7), of js] assms(9) by simp_all
  let ?m2 = "runMonitor js [Notification f, Settled 0 True] m"
  note w = write_completed [OF assms, of js]
  from w have l: "lastDbSave ?m2 = Some (now f)" by simp
  have 2: "powerReadings (runMonitor js ([Notification f, Settled 0 True] @ map Notification gs) m) =
              powerReadings m @ [writtenRow js sid f m]
         \<and> suspended (runMonitor js ([Notification f, Settled 0 True] @ map Notification gs) m) = []"
    if "\<forall>g \<in> set gs. now g - now f < dbSaveInterval"
    using runMonitor_in_window [OF l that, of js] w
    unfolding runMonitor_append by simp
  have 3: "suspended (runMonitor js [Notification f, Notification h] m) =
              [startedSave sid f m, startedSave sid h (onMonitorEvent js m (Notification f))]
         \<and> powerReadings (runMonitor js
                [Notification f, Notification h, Settled 0 True, Settled 0 True] m) =
              powerReadings m @
                [writtenRow js sid f m, writtenRow js sid h (onMonitorEvent js m (Notification f))]"
    if "\<not> tooSoon h m" "\<not> shadowsHasOwnProperty (syncData h)"
      "snd (applySync (syncData h) (onMonitorEvent js m (Notification f)))"
      "convertible (fst (applySync (syncData h) (onMonitorEvent js m (Notification f))))"
    using two_in_flight [OF assms(1,2,4,5,6,7) that]
      two_completed [OF assms(1-7) that assms(8,9)] assms(9)
    by simp
  from 1 l 2 3 show ?thesis by blast
qed

theorem throttle_first_reading_wins_witness:
  "databaseService (exampleMonitor [8684])
   \<and> stationRecord (exampleMonitor [8684]) = Some ''s1''
   \<and> \<not> tooSoon (exampleFrame 0 [(''8684'', JNumber 1)]) (exampleMonitor [8684])
   \<and> snd (applySync (syncData (exampleFrame 0 [(''8684'', JNumber 1)])) (exampleMonitor [8684]))
   \<and> convertible (fst (applySync (syncData (exampleFrame 0 [(''8684'', JNumber 1)]))
        (exampleMonitor [8684])))
   \<and> suspended (exampleMonitor [8684]) = []
   \<and> now (exampleFrame 3000 [(''8684'', JNumber 2)]) - now (exampleFrame 0 [(''8684'', JNumber 1)])
        < dbSaveInterval
   \<and> map rowTimestamp (powerReadings (runMonitor exampleBuiltins
        ([Notification (exampleFrame 0 [(''8684'', JNumber 1)]), Settled 0 True]
           @ map Notification [exampleFrame 3000 [(''8684'', JNumber 2)]])
        (exampleMonitor [8684]))) = [0]
   \<and> map rowTimestamp (powerReadings (runMonitor exampleBuiltins
        [Notification (exampleFrame 0 [(''8684'', JNumber 1)]),
         Notification (exampleFrame 3000 [(''8684'', JNumber 2)]), Settled 0 True, Settled 0 True]
        (exampleMonitor [8684]))) = [0, 3000]"
proof -
  let ?m = "exampleMonitor [8684]"
  let ?f = "exampleFrame 0 [(''8684'', JNumber 1)]"
  let ?g = "exampleFrame 3000 [(''8684'', JNumber 2)]"
  have h1: "databaseService ?m" and h2: "stationRecord ?m = Some ''s1''" and h3: "''s1'' \<noteq> []"
    and h4: "\<not> tooSoon ?f ?m" and h6: "\<not> shadowsHasOwnProperty (syncData ?f)"
    and h7: "\<not> shadowsHasOwnProperty (dataBuffer ?m)" and h8: "suspended ?m = []"
    and g1: "\<not> tooSoon ?g ?m" and g2: "\<not> shadowsHasOwnProperty (syncData ?g)"
    by (simp_all add: exampleMonitor_def exampleFrame_def tooSoon_def shadowsHasOwnProperty_def
          hasOwnProperty_def)
  have h5: "snd (applySync (syncData ?f) ?m)"
    and h5': "convertible (fst (applySync (syncData ?f) ?m))"
    by (simp_all add: eval_defs)
  have g3: "snd (applySync (syncData ?g) (onMonitorEvent exampleBuiltins ?m (Notification ?f)))"
    and g4: "convertible (fst (applySync (syncData ?g)
               (onMonitorEvent exampleBuiltins ?m (Notification ?f))))"
    by (simp_all add: eval_defs)
  have w: "now ?g - now ?f < dbSaveInterval"
    by (simp add: exampleFrame_def dbSaveInterval_def)
  then have w': "\<forall>g \<in> set [?g]. now g - now ?f < dbSaveInterval" by simp
  note c = throttle_first_reading_wins [OF h1 h2 h3 h4 h5 h6 h5' h7 h8, of exampleBuiltins "[?g]" ?g]
  from c w' have "powerReadings (runMonitor exampleBuiltins
        ([Notification ?f, Settled 0 True] @ map Notification [?g]) ?m) =
      powerReadings ?m @ [writtenRow exampleBuiltins ''s1'' ?f ?m]" by blast
  then have r1: "map rowTimestamp (powerReadings (runMonitor exampleBuiltins
        ([Notification ?f, Settled 0 True] @ map Notification [?g]) ?m)) = [0]"
    by (simp add: exampleMonitor_def exampleFrame_def writtenRow_def)
  from c g1 g2 g3 g4 have "powerReadings (runMonitor exampleBuiltins
        [Notification ?f, Notification ?g, Settled 0 True, Settled 0 True] ?m) =
      powerReadings ?m @ [writtenRow exampleBuiltins ''s1'' ?f ?m,
        writtenRow exampleBuiltins ''s1'' ?g (onMonitorEvent exampleBuiltins ?m (Notification ?f))]"
    by blast
  then have r2: "map rowTimestamp (powerReadings (runMonitor exampleBuiltins
        [Notification ?f, Notification ?g, Settled 0 True, Settled 0 True] ?m)) = [0, 3000]"
    by (simp add: exampleMonitor_def exampleFrame_def writtenRow_def)
  from h1 h2 h4 h5 h5' h8 w r1 r2 show ?thesis by blast
qed

section \<open>Unchanged readings\<close>

text \<open>
  Claim C8, as stated, does not hold in its second part. Two consecutive frames differ in
  exactly one value and are handled 3 seconds apart, the first write being confirmed in
  between: the second frame is a change, but the throttle drops it, so there is still one
  row and no additional write.
\<close>

theorem one_field_differs_counterexample:
  "length (powerReadings (runMonitor exampleBuiltins
      [Notification (exampleFrame 0 [(''8684'', JNumber 5), (''8685'', JNumber 1)]), Settled 0 True,
       Notification (exampleFrame 3000 [(''8684'', JNumber 6), (''8685'', JNumber 1)]), Settled 0 True]
      (exampleMonitor [8684, 8685]))) = 1
   \<and> suspended (runMonitor exampleBuiltins
      [Notification (exampleFrame 0 [(''8684'', JNumber 5), (''8685'', JNumber 1)]), Settled 0 True,
       Notification (exampleFrame 3000 [(''8684'', JNumber 6), (''8685'', JNumber 1)])]
      (exampleMonitor [8684, 8685])) = []
   \<and> snd (applySync [(''8684'', JNumber 6), (''8685'', JNumber 1)]
        (runMonitor exampleBuiltins
          [Notification (exampleFrame 0 [(''8684'', JNumber 5), (''8685'', JNumber 1)]), Settled 0 True]
          (exampleMonitor [8684, 8685])))"
  by (simp add: eval_defs)

text \<open>
  Claim C8, amended. The comparison is made on the raw values of the monitored objects.
  Take a monitor with a database service and a station record with a non-empty id, with no
  save in flight, and a frame \<open>f\<close> that is a change and is handled when no confirmed save
  is less than \<open>dbSaveInterval\<close> old. (Neither the frames \<open>f\<close> and \<open>h\<close> nor the buffer
  shadow \<open>hasOwnProperty\<close>, and the buffer can be displayed once \<open>f\<close> or \<open>h\<close> is in
  it.) A next frame \<open>g\<close> with the same raw values (none of them an object) is no
  change: it starts no write and only sets \<open>lastUpdate\<close>, whether the write of \<open>f\<close>
  has been confirmed or not, so the two frames give one row. A next frame \<open>h\<close> that
  differs from \<open>f\<close> in a monitored value is a change, whether the write of \<open>f\<close> has
  been confirmed or not. Handled after the write of \<open>f\<close>
  has been confirmed, it adds exactly one row when it is handled at least
  \<open>dbSaveInterval\<close> after \<open>f\<close> and the store accepts the row, and no row when it is
  handled earlier. Handled while the write of \<open>f\<close> is still in flight, and not throttled
  by an earlier save, it adds one row however soon after \<open>f\<close> it comes.
\<close>

theorem dedupe_on_raw_values_then_throttle:
  assumes "databaseService m" "stationRecord m = Some sid" "sid \<noteq> []" "\<not> tooSoon f m"
    and "snd (applySync (syncData f) m)" "\<not> shadowsHasOwnProperty (syncData f)"
    and "convertible (fst (applySync (syncData f) m))"
    and "\<not> shadowsHasOwnProperty (dataBuffer m)" "suspended m = []"
    and "\<forall>oid \<in> set (monitoredObjects m). \<forall>s.
           map_of (syncData f) (toString oid) \<noteq> Some (JObject s)"
    and "\<forall>oid \<in> set (monitoredObjects m).
           map_of (syncData g) (toString oid) = map_of (syncData f) (toString oid)"
    and "oid \<in> set (monitoredObjects m)" "map_of (syncData f) (toString oid) = Some u"
        "map_of (syncData h) (toString oid) = Some v" "u \<noteq> v"
    and "\<not> shadowsHasOwnProperty (syncData h)"
    and "convertible (fst (applySync (syncData h) (onMonitorEvent js m (Notification f))))"
  shows "runMonitor js (Notification f # settlements ks @ [Notification g]) m =
           (runMonitor js (Notification f # settlements ks) m)\<lparr>lastUpdate := Some (now g)\<rparr>
       \<and> snd (applySync (syncData h) (runMonitor js (Notification f # settlements ks) m))
       \<and> powerReadings (runMonitor js [Notification f, Settled 0 True, Notification g] m) =
           powerReadings m @ [writtenRow js sid f m]
       \<and> suspended (runMonitor js [Notification f, Settled 0 True, Notification g] m) = []
       \<and> powerReadings (runMonitor js
             [Notification f, Settled 0 True, Notification h, Settled 0 True] m) =
           powerReadings m @ [writtenRow js sid f m] @
             (if dbSaveInterval \<le> now h - now f
              then [writtenRow js sid h (onMonitorEvent js m (Notification f))] else [])
       \<and> suspended (runMonitor js
             [Notification f, Settled 0 True, Notification h, Settled 0 True] m) = []
       \<and> (\<not> tooSoon h m \<longrightarrow>
            powerReadings (runMonitor js
                [Notification f, Notification h, Settled 0 True, Settled 0 True] m) =
              powerReadings m @
                [writtenRow js sid f m, writtenRow js sid h (onMonitorEvent js m (Notification f))])"
proof -
  let ?m1 = "onMonitorEvent js m (Notification f)"
  have m1: "?m1 = m\<lparr>lastUpdate := Some (now f), dataBuffer := fst (applySync (syncData f) m),
             suspended := suspended m @ [startedSave sid f m]\<rparr>"
    by (rule write_started [OF assms(1,2,4,5,6,7)])
  have same: "applySync (syncData g) m' = (dataBuffer m', False)"
    if "monitoredObjects m' = monitoredObjects m" "dataBuffer m' = fst (applySync (syncData f) m)"
    for m'
    using applySync_repeat [OF assms(10,11) that] .
  have diff: "snd (applySync (syncData h) m')"
    if "monitoredObjects m' = monitoredObjects m" "dataBuffer m' = fst (applySync (syncData f) m)"
    for m'
    using applySync_differs [OF assms(12-15) that] .
  have gen: "runMonitor js (Notification f # settlements ks' @ [Notification g]) m =
           (runMonitor js (Notification f # settlements ks') m)\<lparr>lastUpdate := Some (now g)\<rparr>"
    for ks'
  proof -
    let ?m2 = "runMonitor js (Notification f # settlements ks') m"
    have "?m2 = runMonitor js (settlements ks') ?m1" by (simp add: runMonitor_Cons)
    with settlements_fields [of js ks' ?m1]
    have f2: "monitoredObjects ?m2 = monitoredObjects m"
      "dataBuffer ?m2 = fst (applySync (syncData f) m)"
      by (simp_all add: m1)
    from same [OF f2] have "\<not> snd (applySync (syncData g) ?m2)" by simp
    then have "onMonitorEvent js ?m2 (Notification g) = ?m2\<lparr>lastUpdate := Some (now g)\<rparr>"
      by (simp add: onMonitorEvent_Notification notification_unchanged)
    moreover have "runMonitor js (Notification f # settlements ks' @ [Notification g]) m =
        onMonitorEvent js ?m2 (Notification g)"
      using runMonitor_append [of js "Notification f # settlements ks'" "[Notification g]" m]
      by (simp add: runMonitor_Cons runMonitor_Nil)
    ultimately show ?thesis by simp
  qed
  note 1 = gen [of ks]
  have c: "snd (applySync (syncData h) (runMonitor js (Notification f # settlements ks) m))"
  proof -
    let ?m2 = "runMonitor js (Notification f # settlements ks) m"
    have "?m2 = runMonitor js (settlements ks) ?m1" by (simp add: runMonitor_Cons)
    with settlements_fields [of js ks ?m1]
    have "monitoredObjects ?m2 = monitoredObjects m"
      "dataBuffer ?m2 = fst (applySync (syncData f) m)"
      by (simp_all add: m1)
    then show ?thesis by (rule diff)
  qed
  let ?m2 = "runMonitor js [Notification f, Settled 0 True] m"
  note w = write_completed [OF assms(1-9), of js]
  have ks: "Notification f # settlements [(0, True)] = [Notification f, Settled 0 True]"
    "Notification f # settlements [(0, True)] @ [Notification g]
       = [Notification f, Settled 0 True, Notification g]"
    by (simp_all add: settlements_def)
  from gen [of "[(0, True)]"] w
  have 2: "powerReadings (runMonitor js [Notification f, Settled 0 True, Notification g] m) =
           powerReadings m @ [writtenRow js sid f m]
         \<and> suspended (runMonitor js [Notification f, Settled 0 True, Notification g] m) = []"
    unfolding ks by simp
  have f2: "monitoredObjects ?m2 = monitoredObjects m"
    "dataBuffer ?m2 = fst (applySync (syncData f) m)"
    "databaseService ?m2" "stationRecord ?m2 = Some sid" "suspended ?m2 = []"
    "lastDbSave ?m2 = Some (now f)"
    using w assms(1,2) by simp_all
  have ch: "snd (applySync (syncData h) ?m2)" by (rule diff [OF f2(1,2)])
  have ts: "tooSoon h ?m2 \<longleftrightarrow> \<not> dbSaveInterval \<le> now h - now f"
    using f2(6) by (auto simp: tooSoon_def)
  have b2: "\<not> shadowsHasOwnProperty (dataBuffer ?m2)"
    unfolding f2(2) by (rule applySync_keeps_method [OF assms(8)])
  have ae: "applySync (syncData h) ?m2 = applySync (syncData h) ?m1"
    using applySync_eq [of ?m2 ?m1 "syncData h"] f2(1,2) by (simp add: m1)
  then have row: "writtenRow js sid h ?m2 = writtenRow js sid h ?m1"
    by (simp add: writtenRow_def)
  from ae assms(17) have cv: "convertible (fst (applySync (syncData h) ?m2))" by simp
  have r: "runMonitor js [Notification f, Settled 0 True, Notification h, Settled 0 True] m =
      runMonitor js [Notification h, Settled 0 True] ?m2"
    using runMonitor_append [of js "[Notification f, Settled 0 True]"
        "[Notification h, Settled 0 True]" m] by simp
  have 3: "powerReadings (runMonitor js
             [Notification f, Settled 0 True, Notification h, Settled 0 True] m) =
           powerReadings m @ [writtenRow js sid f m] @
             (if dbSaveInterval \<le> now h - now f then [writtenRow js sid h ?m1] else [])
         \<and> suspended (runMonitor js
             [Notification f, Settled 0 True, Notification h, Settled 0 True] m) = []"
  proof (cases "dbSaveInterval \<le> now h - now f")
    case True
    with ts have nts: "\<not> tooSoon h ?m2" by simp
    from write_completed [OF f2(3,4) assms(3) nts ch assms(16) cv b2 f2(5), of js] w True row
    show ?thesis unfolding r by simp
  next
    case False
    with ts have "tooSoon h ?m2" by simp
    from write_throttled [OF this, of js] f2(5) w False
    show ?thesis unfolding r
      by (simp add: runMonitor_Cons runMonitor_Nil onMonitorEvent_Settled resumeSave_idle)
  qed
  have 4: "powerReadings (runMonitor js
                [Notification f, Notification h, Settled 0 True, Settled 0 True] m) =
              powerReadings m @ [writtenRow js sid f m, writtenRow js sid h ?m1]"
    if "\<not> tooSoon h m"
  proof -
    have "snd (applySync (syncData h) ?m1)"
      by (rule diff) (simp_all add: m1)
    from two_completed [OF assms(1-7) that assms(16) this assms(17) assms(8,9)] show ?thesis by simp
  qed
  from 1 c 2 3 4 show ?thesis by blast
qed

theorem dedupe_on_raw_values_then_throttle_witness:
  "snd (applySync (syncData (exampleFrame 0 [(''8684'', JNumber 5), (''8685'', JNumber 1)]))
        (exampleMonitor [8684, 8685]))
   \<and> map_of (syncData (exampleFrame 0 [(''8684'', JNumber 5), (''8685'', JNumber 1)]))
        (toString 8684) = Some (JNumber 5)
   \<and> map_of (syncData (exampleFrame 10000 [(''8684'', JNumber 6), (''8685'', JNumber 1)]))
        (toString 8684) = Some (JNumber 6)
   \<and> JNumber 5 \<noteq> JNumber 6
   \<and> dbSaveInterval \<le> now (exampleFrame 10000 [(''8684'', JNumber 6), (''8685'', JNumber 1)])
        - now (exampleFrame 0 [(''8684'', JNumber 5), (''8685'', JNumber 1)])
   \<and> \<not> tooSoon (exampleFrame 10000 [(''8684'', JNumber 6), (''8685'', JNumber 1)])
        (exampleMonitor [8684, 8685])
   \<and> length (powerReadings (runMonitor exampleBuiltins
        [Notification (exampleFrame 0 [(''8684'', JNumber 5), (''8685'', JNumber 1)]), Settled 0 True,
         Notification (exampleFrame 3000 [(''8684'', JNumber 5), (''8685'', JNumber 1)])]
        (exampleMonitor [8684, 8685]))) = 1
   \<and> length (powerReadings (runMonitor exampleBuiltins
        [Notification (exampleFrame 0 [(''8684'', JNumber 5), (''8685'', JNumber 1)]), Settled 0 True,
         Notification (exampleFrame 10000 [(''8684'', JNumber 6), (''8685'', JNumber 1)]), Settled 0 True]
        (exampleMonitor [8684, 8685]))) = 2
   \<and> length (powerReadings (runMonitor exampleBuiltins
        [Notification (exampleFrame 0 [(''8684'', JNumber 5), (''8685'', JNumber 1)]),
         Notification (exampleFrame 10000 [(''8684'', JNumber 6), (''8685'', JNumber 1)]),
         Settled 0 True, Settled 0 True]
        (exampleMonitor [8684, 8685]))) = 2"
proof -
  let ?m = "exampleMonitor [8684, 8685]"
  let ?f = "exampleFrame 0 [(''8684'', JNumber 5), (''8685'', JNumber 1)]"
  let ?g = "exampleFrame 3000 [(''8684'', JNumber 5), (''8685'', JNumber 1)]"
  let ?h = "exampleFrame 10000 [(''8684'', JNumber 6), (''8685'', JNumber 1)]"
  have h1: "databaseService ?m" and h2: "stationRecord ?m = Some ''s1''" and h3: "''s1'' \<noteq> []"
    and h4: "\<not> tooSoon ?f ?m" and h6: "\<not> shadowsHasOwnProperty (syncData ?f)"
    and h7: "\<not> shadowsHasOwnProperty (dataBuffer ?m)" and h8: "suspended ?m = []"
    and h15: "\<not> shadowsHasOwnProperty (syncData ?h)" and nt: "\<not> tooSoon ?h ?m"
    by (simp_all add: exampleMonitor_def exampleFrame_def tooSoon_def shadowsHasOwnProperty_def
          hasOwnProperty_def)
  have h5: "snd (applySync (syncData ?f) ?m)"
    and h5': "convertible (fst (applySync (syncData ?f) ?m))"
    and h16: "convertible (fst (applySync (syncData ?h)
                (onMonitorEvent exampleBuiltins ?m (Notification ?f))))"
    by (simp_all add: eval_defs)
  have ts: "toString 8684 = ''8684''" "toString 8685 = ''8685''"
    by (simp_all add: toString_def natToString.simps digitChar_def)
  have h9: "\<forall>oid \<in> set (monitoredObjects ?m). \<forall>s.
              map_of (syncData ?f) (toString oid) \<noteq> Some (JObject s)"
    by (simp add: exampleMonitor_def exampleFrame_def ts)
  have h10: "\<forall>oid \<in> set (monitoredObjects ?m).
              map_of (syncData ?g) (toString oid) = map_of (syncData ?f) (toString oid)"
    by (simp add: exampleMonitor_def exampleFrame_def ts)
  have h11: "8684 \<in> set (monitoredObjects ?m)" by (simp add: exampleMonitor_def)
  have h12: "map_of (syncData ?f) (toString 8684) = Some (JNumber 5)"
    and h13: "map_of (syncData ?h) (toString 8684) = Some (JNumber 6)"
    by (simp_all add: exampleFrame_def ts)
  have h14: "JNumber 5 \<noteq> JNumber 6" by simp
  have out: "dbSaveInterval \<le> now ?h - now ?f"
    by (simp add: exampleFrame_def dbSaveInterval_def)
  note c = dedupe_on_raw_values_then_throttle [OF h1 h2 h3 h4 h5 h6 h5' h7 h8 h9 h10 h11 h12 h13 h14
      h15 h16, where ks = "[]"]
  from c have one: "length (powerReadings (runMonitor exampleBuiltins
      [Notification ?f, Settled 0 True, Notification ?g] ?m)) = 1"
    by (simp add: exampleMonitor_def)
  from c out have two: "length (powerReadings (runMonitor exampleBuiltins
      [Notification ?f, Settled 0 True, Notification ?h, Settled 0 True] ?m)) = 2"
    by (simp add: exampleMonitor_def)
  from c nt have both: "length (powerReadings (runMonitor exampleBuiltins
      [Notification ?f, Notification ?h, Settled 0 True, Settled 0 True] ?m)) = 2"
    by (simp add: exampleMonitor_def)
  from h5 h12 h13 h14 out nt one two both show ?thesis by blast
qed

section \<open>The handshake\<close>

lemma orderInv_new: "orderInv p newMonitor"
  by (simp add: orderInv_def newMonitor_def)

lemma orderInv_connect: "orderInv p (connect c)"
  by (simp add: orderInv_def connect_def)

lemma orderInv_cong:
  "orderInv p c \<Longrightarrow> phase c' = phase c \<Longrightarrow> sent c' = sent c \<Longrightarrow> answered c' = answered c \<Longrightarrow>
   orderInv p c'"
  unfolding orderInv_def by presburger

lemma orderInv_fail:
  assumes "orderInv p c" "phase c = Connecting \<or> (\<exists>t. phase c = Sending t) \<or> (\<exists>t. phase c = Waiting t)"
  shows "orderInv p (c\<lparr>phase := Failed e\<rparr>)"
proof -
  from assms(1) obtain dn todo where s: "steps p = dn @ todo" "answered c = map stepId dn"
    and ph: "(case phase c of
           Idle \<Rightarrow> dn = [] \<and> sent c = []
         | Connecting \<Rightarrow> dn = [] \<and> sent c = []
         | Sending t \<Rightarrow> t = todo \<and> t \<noteq> [] \<and> map reqId (sent c) = map stepId dn
         | Waiting t \<Rightarrow> t = todo \<and> t \<noteq> [] \<and> map reqId (sent c) = map stepId dn @ [stepId (hd t)]
         | Monitoring \<Rightarrow> todo = [] \<and> map reqId (sent c) = map stepId dn
         | Failed e \<Rightarrow> map reqId (sent c) = map stepId dn
               \<or> (todo \<noteq> [] \<and> map reqId (sent c) = map stepId dn @ [stepId (hd todo)]))"
    unfolding orderInv_def by blast
  from assms(2) ph have "map reqId (sent c) = map stepId dn
               \<or> (todo \<noteq> [] \<and> map reqId (sent c) = map stepId dn @ [stepId (hd todo)])"
    by (auto split: phase.splits)
  with s show ?thesis unfolding orderInv_def by (intro exI [of _ dn] exI [of _ todo]) simp
qed

lemma orderInv_open:
  assumes "orderInv p c" "phase c = Connecting"
  shows "orderInv p (c\<lparr>isConnected := True, reconnectAttempts := 0, phase := continue (steps p)\<rparr>)"
proof -
  from assms have "answered c = []" "sent c = []"
    by (auto simp: orderInv_def)
  then show ?thesis
    unfolding orderInv_def
    by (intro exI [of _ "[]"] exI [of _ "steps p"]) (simp add: continue_def)
qed

lemma orderInv_send:
  assumes "reqId r = stepId st" "orderInv p c" "phase c = Sending (st # rest)"
  shows "orderInv p (c\<lparr>sent := sent c @ [r], phase := Waiting (st # rest)\<rparr>)"
proof -
  from assms obtain dn where "steps p = dn @ st # rest" "answered c = map stepId dn"
    "map reqId (sent c) = map stepId dn"
    by (auto simp: orderInv_def)
  with assms(1) show ?thesis
    unfolding orderInv_def
    by (intro exI [of _ dn] exI [of _ "st # rest"]) simp
qed

lemma orderInv_answer:
  assumes "orderInv p c" "phase c = Waiting (st # rest)"
  shows "orderInv p (c\<lparr>answered := answered c @ [stepId st], USID := u, phase := continue rest\<rparr>)"
proof -
  from assms obtain dn where "steps p = dn @ st # rest" "answered c = map stepId dn"
    "map reqId (sent c) = map stepId dn @ [stepId st]"
    by (auto simp: orderInv_def)
  then show ?thesis
    unfolding orderInv_def
    by (intro exI [of _ "dn @ [st]"] exI [of _ rest]) (simp add: continue_def)
qed

lemma orderInv_handleReconnect: "orderInv p c \<Longrightarrow> orderInv p (handleReconnect q (c\<lparr>isConnected := b\<rparr>))"
  by (rule orderInv_cong [of p c]) (simp_all add: handleReconnect_def)

lemma orderInv_step: "orderInv p c \<Longrightarrow> orderInv p (onEvent p objects c e)"
proof (cases e)
  case ConnectCall
  then show ?thesis by (simp add: orderInv_connect)
next
  case Open
  assume i: "orderInv p c"
  show ?thesis
  proof (cases "phase c = Connecting")
    case True
    with orderInv_open [OF i True] Open show ?thesis by (simp add: Let_def)
  next
    case False
    have "orderInv p (c\<lparr>isConnected := True, reconnectAttempts := 0\<rparr>)"
      by (rule orderInv_cong [OF i]) simp_all
    with False Open show ?thesis by (simp add: Let_def)
  qed
next
  case Error
  assume i: "orderInv p c"
  with Error orderInv_fail [OF i] show ?thesis by simp
next
  case Close
  assume "orderInv p c"
  with Close show ?thesis by (simp add: orderInv_handleReconnect)
next
  case ConnectTimer
  assume i: "orderInv p c"
  with ConnectTimer orderInv_fail [OF i] show ?thesis by simp
next
  case ReconnectTimer
  assume "orderInv p c"
  with ReconnectTimer show ?thesis by (simp add: orderInv_connect)
next
  case (SendTimer ready)
  assume i: "orderInv p c"
  show ?thesis
  proof (cases "phase c")
    case (Sending t)
    show ?thesis
    proof (cases t)
      case Nil
      with Sending SendTimer i show ?thesis by simp
    next
      case (Cons st rest)
      show ?thesis
      proof (cases ready)
        case True
        have "reqId (buildRequest objects c st) = stepId st" by (simp add: buildRequest_def)
        from orderInv_send [OF this i] Sending Cons True SendTimer show ?thesis by simp
      next
        case False
        from orderInv_fail [OF i] Sending Cons False SendTimer show ?thesis by simp
      qed
    qed
  qed (use i SendTimer in simp_all)
next
  case (Message mo)
  assume i: "orderInv p c"
  show ?thesis
  proof (cases mo)
    case None
    with Message i show ?thesis by simp
  next
    case (Some msg)
    show ?thesis
    proof (cases "phase c")
      case (Waiting t)
      show ?thesis
      proof (cases t)
        case Nil
        with Waiting Message Some i show ?thesis by simp
      next
        case (Cons st rest)
        from orderInv_answer [OF i] Waiting Cons Message Some i show ?thesis by simp
      qed
    qed (use i Message Some in simp_all)
  qed
next
  case MessageTimer
  assume i: "orderInv p c"
  show ?thesis
  proof (cases "phase c")
    case (Waiting t)
    from orderInv_fail [OF i] Waiting MessageTimer i show ?thesis by simp
  qed (use i MessageTimer in simp_all)
qed

lemma orderInv_run: "orderInv p c \<Longrightarrow> orderInv p (runEvents p objects c es)"
  unfolding runEvents_def
  by (induction es rule: rev_induct) (simp_all add: orderInv_step)

lemma tokenProtocol_station: "tokenProtocol stationMonitorProtocol"
  by (simp add: tokenProtocol_def stationMonitorProtocol_def)

lemma tokenProtocol_chiangMai: "tokenProtocol chiangMaiProtocol"
  by (simp add: tokenProtocol_def chiangMaiProtocol_def)

lemma tokenInv_new: "tokenInv newMonitor"
  by (simp add: tokenInv_def newMonitor_def)

lemma tokenInv_connect: "tokenInv (connect c)"
  by (simp add: tokenInv_def connect_def)

lemma tokenInv_cong:
  "tokenInv c \<Longrightarrow> USID c' = USID c \<Longrightarrow> sent c' = sent c \<Longrightarrow> answered c' = answered c \<Longrightarrow>
   tokenInv c'"
  by (simp add: tokenInv_def)

lemma tokenInv_send:
  assumes p: "tokenProtocol p" and o: "orderInv p c" and t: "tokenInv c"
    and ph: "phase c = Sending (st # rest)"
  shows "tokenInv (c\<lparr>sent := sent c @ [buildRequest objects c st], phase := Waiting (st # rest)\<rparr>)"
proof -
  from o ph obtain dn where d: "steps p = dn @ st # rest" "answered c = map stepId dn"
    by (auto simp: orderInv_def)
  from p obtain s0 tl where s: "steps p = s0 # tl" "stepId s0 = 0"
    "\<forall>s \<in> set tl. stepId s \<noteq> 0 \<and> (stepId s = 7 \<longrightarrow> withUSID s)"
    by (auto simp: tokenProtocol_def)
  have new: "reqUSID (buildRequest objects c st) \<noteq> None" if "stepId st = 7"
  proof -
    from that s(2) d(1) s(1) have "dn \<noteq> []" by (cases dn) auto
    with d(2) t have u: "USID c \<noteq> None" by (auto simp: tokenInv_def)
    from \<open>dn \<noteq> []\<close> d(1) s(1) have "st \<in> set tl" by (cases dn) auto
    with s(3) that have "withUSID st" by blast
    with u show ?thesis by (simp add: buildRequest_def)
  qed
  have "reqUSID (buildRequest objects c st) = None \<or> reqUSID (buildRequest objects c st) = USID c"
    by (simp add: buildRequest_def)
  with new t show ?thesis
    by (auto simp: tokenInv_def buildRequest_def)
qed

lemma tokenInv_answer:
  assumes p: "tokenProtocol p" and o: "orderInv p c" and t: "tokenInv c"
    and ph: "phase c = Waiting (st # rest)" and v: "validator (expect st) (stepId st) msg"
  shows "tokenInv (c\<lparr>answered := answered c @ [stepId st],
            USID := (if expect st = SessionToken then sessionToken msg else USID c),
            phase := continue rest\<rparr>)"
proof -
  from o ph obtain dn where d: "steps p = dn @ st # rest" "answered c = map stepId dn"
    "map reqId (sent c) = map stepId dn @ [stepId st]"
    by (auto simp: orderInv_def)
  from p obtain s0 tl where s: "steps p = s0 # tl" "expect s0 = SessionToken" "stepId s0 = 0"
    "\<forall>s \<in> set tl. expect s \<noteq> SessionToken"
    by (auto simp: tokenProtocol_def)
  show ?thesis
  proof (cases "expect st = SessionToken")
    case True
    with d(1) s(1,4) have "dn = []" by (cases dn) auto
    with d(1,3) s(1,3) have "map reqId (sent c) = [0]" by simp
    then have none: "\<forall>r \<in> set (sent c). reqId r = 0"
      by (metis (no_types, lifting) empty_iff empty_set imageI list.set_map set_ConsD)
    from True v obtain u where "sessionToken msg = Some u" "u \<noteq> []"
      by (auto simp: sessionToken_def split: result.splits)
    with True none show ?thesis by (simp add: tokenInv_def)
  next
    case False
    with d(1) s(1,2) have "dn \<noteq> []" by (cases dn) auto
    with d(2) t have "\<exists>u. USID c = Some u \<and> u \<noteq> []" by (simp add: tokenInv_def)
    with False t show ?thesis by (simp add: tokenInv_def)
  qed
qed

lemma tokenInv_step:
  assumes p: "tokenProtocol p" and o: "orderInv p c" and t: "tokenInv c"
  shows "tokenInv (onEvent p objects c e)"
proof (cases e)
  case ConnectCall
  then show ?thesis by (simp add: tokenInv_connect)
next
  case Open
  have "tokenInv (c\<lparr>isConnected := True, reconnectAttempts := 0\<rparr>)"
    "tokenInv (c\<lparr>isConnected := True, reconnectAttempts := 0, phase := continue (steps p)\<rparr>)"
    by (rule tokenInv_cong [OF t]; simp)+
  with Open show ?thesis by (simp add: Let_def)
next
  case Error
  have "tokenInv (c\<lparr>phase := Failed SocketError\<rparr>)" by (rule tokenInv_cong [OF t]) simp_all
  with Error t show ?thesis by simp
next
  case Close
  have "tokenInv (handleReconnect p (c\<lparr>isConnected := False\<rparr>))"
    by (rule tokenInv_cong [OF t]) (simp_all add: handleReconnect_def)
  with Close show ?thesis by simp
next
  case ConnectTimer
  have "tokenInv (c\<lparr>phase := Failed ConnectionTimeout\<rparr>)" by (rule tokenInv_cong [OF t]) simp_all
  with ConnectTimer t show ?thesis by simp
next
  case ReconnectTimer
  with t show ?thesis by (simp add: tokenInv_connect)
next
  case (SendTimer ready)
  show ?thesis
  proof (cases "phase c")
    case (Sending todo)
    show ?thesis
    proof (cases todo)
      case Nil
      with Sending SendTimer t show ?thesis by simp
    next
      case (Cons st rest)
      have f: "tokenInv (c\<lparr>phase := Failed WebSocketNotOpen\<rparr>)"
        by (rule tokenInv_cong [OF t]) simp_all
      from tokenInv_send [OF p o t, of st rest objects] f Sending Cons SendTimer
      show ?thesis by simp
    qed
  qed (use t SendTimer in simp_all)
next
  case (Message mo)
  show ?thesis
  proof (cases mo)
    case None
    with Message t show ?thesis by simp
  next
    case (Some msg)
    show ?thesis
    proof (cases "phase c")
      case (Waiting todo)
      show ?thesis
      proof (cases todo)
        case Nil
        with Waiting Message Some t show ?thesis by simp
      next
        case (Cons st rest)
        from tokenInv_answer [OF p o t, of st rest msg] Waiting Cons Message Some t
        show ?thesis by simp
      qed
    qed (use t Message Some in simp_all)
  qed
next
  case MessageTimer
  have "tokenInv (c\<lparr>phase := Failed MessageTimeout\<rparr>)" by (rule tokenInv_cong [OF t]) simp_all
  with MessageTimer t show ?thesis by (simp split: phase.splits)
qed

lemma invs_run:
  assumes "tokenProtocol p"
  shows "orderInv p (runEvents p objects newMonitor es) \<and> tokenInv (runEvents p objects newMonitor es)"
proof (induction es rule: rev_induct)
  case Nil
  then show ?case by (simp add: runEvents_def orderInv_new tokenInv_new)
next
  case (snoc e es)
  then show ?case
    using assms by (simp add: runEvents_def orderInv_step tokenInv_step)
qed

lemma stepIds_station: "map stepId (steps stationMonitorProtocol) = [0, 1, 2, 3, 4, 5, 6, 7]"
  by (simp add: stationMonitorProtocol_def)

lemma stepIds_chiangMai: "map stepId (steps chiangMaiProtocol) = [0, 1, 2, 3, 4, 5, 6, 7]"
  by (simp add: chiangMaiProtocol_def)

lemma orderInv_prefixes:
  assumes "orderInv p c"
  shows "prefix (answered c) (map stepId (steps p))"
    and "prefix (map reqId (sent c)) (map stepId (steps p))"
    and "length (answered c) \<le> length (sent c)"
    and "length (sent c) \<le> Suc (length (answered c))"
    and "phase c = Monitoring \<Longrightarrow> answered c = map stepId (steps p)"
    and "phase c = Monitoring \<Longrightarrow> map reqId (sent c) = map stepId (steps p)"
proof -
  from assms obtain dn todo where s: "steps p = dn @ todo" "answered c = map stepId dn"
    and ph: "(case phase c of
           Idle \<Rightarrow> dn = [] \<and> sent c = []
         | Connecting \<Rightarrow> dn = [] \<and> sent c = []
         | Sending t \<Rightarrow> t = todo \<and> t \<noteq> [] \<and> map reqId (sent c) = map stepId dn
         | Waiting t \<Rightarrow> t = todo \<and> t \<noteq> [] \<and> map reqId (sent c) = map stepId dn @ [stepId (hd t)]
         | Monitoring \<Rightarrow> todo = [] \<and> map reqId (sent c) = map stepId dn
         | Failed e \<Rightarrow> map reqId (sent c) = map stepId dn
               \<or> (todo \<noteq> [] \<and> map reqId (sent c) = map stepId dn @ [stepId (hd todo)]))"
    unfolding orderInv_def by blast
  from ph have alt: "map reqId (sent c) = map stepId dn
      \<or> (todo \<noteq> [] \<and> map reqId (sent c) = map stepId dn @ [stepId (hd todo)])"
    by (auto split: phase.splits)
  show "prefix (answered c) (map stepId (steps p))" using s by simp
  show "prefix (map reqId (sent c)) (map stepId (steps p))"
  proof (cases "map reqId (sent c) = map stepId dn")
    case True
    with s show ?thesis by simp
  next
    case False
    with alt obtain st rest where "todo = st # rest"
      "map reqId (sent c) = map stepId dn @ [stepId st]" by (cases todo) auto
    with s show ?thesis by simp
  qed
  have len: "length (map reqId (sent c)) = length dn \<or> length (map reqId (sent c)) = Suc (length dn)"
    using alt by (metis length_append_singleton length_map)
  then show "length (answered c) \<le> length (sent c)" using s(2) by auto
  from len show "length (sent c) \<le> Suc (length (answered c))" using s(2) by auto
  show "answered c = map stepId (steps p)" if "phase c = Monitoring"
    using that ph s by simp
  show "map reqId (sent c) = map stepId (steps p)" if "phase c = Monitoring"
    using that ph s by simp
qed

lemma premature_message_ignored:
  assumes o: "orderInv p c" and p: "tokenProtocol p"
    and a: "0 \<notin> set (answered c)" and m: "msgId msg \<noteq> Some 0"
  shows "onEvent p objects c (Message (Some msg)) = c"
proof (cases "phase c")
  case (Waiting t)
  from o Waiting obtain dn where d: "steps p = dn @ t" "answered c = map stepId dn" "t \<noteq> []"
    by (auto simp: orderInv_def)
  from p obtain s0 tl where s: "steps p = s0 # tl" "stepId s0 = 0"
    by (auto simp: tokenProtocol_def)
  have "dn = []"
  proof (rule ccontr)
    assume "dn \<noteq> []"
    with d(1) s(1) have "s0 \<in> set dn" by (cases dn) auto
    with s(2) d(2) a show False by force
  qed
  with d s obtain rest where t: "t = s0 # rest" by (cases t) auto
  from m s(2) have "\<not> validator (expect s0) (stepId s0) msg"
    by (cases "expect s0") simp_all
  with Waiting t show ?thesis by simp
qed simp_all

lemma prefix_with_last:
  "prefix xs [0, 1, 2, 3, 4, 5, 6, 7::nat] \<Longrightarrow> 7 \<in> set xs \<Longrightarrow> xs = [0, 1, 2, 3, 4, 5, 6, 7]"
  by (auto simp: prefix_Cons)

lemmas run_defs = runEvents_def stationMonitorProtocol_def newMonitor_def connect_def
  handleReconnect_def buildRequest_def continue_def sessionToken_def sessionResponse_def
  boolResponse_def exampleHandshake_def Let_def

lemma example_run:
  "runEvents stationMonitorProtocol [8684] newMonitor exampleHandshake =
     \<lparr>isConnected = True, reconnectAttempts = 0, USID = Some ''u1'', phase = Monitoring,
      reconnectTimers = 0, sockets = 1,
      sent = map (buildRequest [8684] \<lparr>isConnected = True, reconnectAttempts = 0, USID = Some ''u1'', phase = Monitoring,
      reconnectTimers = 0, sockets = 1, sent = [], answered = []\<rparr>) (steps stationMonitorProtocol),
      answered = [0, 1, 2, 3, 4, 5, 6, 7]\<rparr>"
  by (simp add: run_defs)

text \<open>
  Claim C3. In every run of the handshake, of the \<open>StationMonitor\<close> and of the
  \<open>ChiangMaiClient\<close>, whatever the event loop delivers and in whatever order: the
  responses observed and the requests sent follow the order of the steps, and the requests
  are never more than one ahead of the responses, so a request goes out only after the
  response of the step before it has been observed. The registration request (id 7) is
  sent only after the session response (id 0) has been observed, and it carries the token
  of that response. Monitoring is reached only with all eight responses observed in order.
  Before the session response has been observed, a message with any other id, such as an
  early answer to the registration step, changes nothing.
\<close>

theorem handshake_steps_in_order:
  assumes "p = stationMonitorProtocol \<or> p = chiangMaiProtocol"
    and "c = runEvents p objects newMonitor es"
  shows "prefix (answered c) [0, 1, 2, 3, 4, 5, 6, 7]
       \<and> prefix (map reqId (sent c)) [0, 1, 2, 3, 4, 5, 6, 7]
       \<and> length (answered c) \<le> length (sent c) \<and> length (sent c) \<le> Suc (length (answered c))
       \<and> (\<forall>r \<in> set (sent c). reqId r = 7 \<longrightarrow>
            0 \<in> set (answered c) \<and> (\<exists>u. u \<noteq> [] \<and> USID c = Some u \<and> reqUSID r = Some u))
       \<and> (phase c = Monitoring \<longrightarrow>
            answered c = [0, 1, 2, 3, 4, 5, 6, 7] \<and> map reqId (sent c) = [0, 1, 2, 3, 4, 5, 6, 7])
       \<and> (\<forall>msg. 0 \<notin> set (answered c) \<and> msgId msg \<noteq> Some 0 \<longrightarrow>
            onEvent p objects c (Message (Some msg)) = c)"
proof -
  from assms(1) have tp: "tokenProtocol p" and ids: "map stepId (steps p) = [0, 1, 2, 3, 4, 5, 6, 7]"
    using tokenProtocol_station tokenProtocol_chiangMai stepIds_station stepIds_chiangMai by auto
  from invs_run [OF tp, of objects es] assms(2) have o: "orderInv p c" and t: "tokenInv c"
    by simp_all
  note pre = orderInv_prefixes [OF o, unfolded ids]
  have seven: "0 \<in> set (answered c) \<and> (\<exists>u. u \<noteq> [] \<and> USID c = Some u \<and> reqUSID r = Some u)"
    if r: "r \<in> set (sent c)" "reqId r = 7" for r
  proof -
    from r have "7 \<in> set (map reqId (sent c))" by force
    with pre(2) have "map reqId (sent c) = [0, 1, 2, 3, 4, 5, 6, 7]"
      by (rule prefix_with_last)
    then have "length (map reqId (sent c)) = 8" by simp
    then have "length (sent c) = 8" by simp
    with pre(4) have "answered c \<noteq> []" by auto
    with pre(1) have z: "0 \<in> set (answered c)"
      by (cases "answered c") (auto simp: prefix_Cons)
    then have "answered c \<noteq> []" by auto
    with t obtain u where u: "USID c = Some u" "u \<noteq> []" by (auto simp: tokenInv_def)
    from t r have "(reqUSID r = None \<or> reqUSID r = USID c) \<and> reqUSID r \<noteq> None"
      by (auto simp: tokenInv_def)
    with u z show ?thesis by auto
  qed
  have early: "onEvent p objects c (Message (Some msg)) = c"
    if "0 \<notin> set (answered c)" "msgId msg \<noteq> Some 0" for msg
    using premature_message_ignored [OF o tp that] .
  from pre seven early show ?thesis by blast
qed

theorem handshake_steps_in_order_witness:
  "phase (runEvents stationMonitorProtocol [8684] newMonitor exampleHandshake) = Monitoring
   \<and> answered (runEvents stationMonitorProtocol [8684] newMonitor exampleHandshake)
        = [0, 1, 2, 3, 4, 5, 6, 7]
   \<and> map reqId (sent (runEvents stationMonitorProtocol [8684] newMonitor exampleHandshake))
        = [0, 1, 2, 3, 4, 5, 6, 7]
   \<and> reqId (last (sent (runEvents stationMonitorProtocol [8684] newMonitor exampleHandshake))) = 7
   \<and> reqUSID (last (sent (runEvents stationMonitorProtocol [8684] newMonitor exampleHandshake)))
        = Some ''u1''
   \<and> 0 \<notin> set (answered (runEvents stationMonitorProtocol [8684] newMonitor
        [ConnectCall, Open, SendTimer True]))
   \<and> msgId (boolResponse 7 True) \<noteq> Some 0
   \<and> onEvent stationMonitorProtocol [8684]
        (runEvents stationMonitorProtocol [8684] newMonitor [ConnectCall, Open, SendTimer True])
        (Message (Some (boolResponse 7 True)))
      = runEvents stationMonitorProtocol [8684] newMonitor [ConnectCall, Open, SendTimer True]"
proof -
  let ?c = "runEvents stationMonitorProtocol [8684] newMonitor exampleHandshake"
  let ?d = "runEvents stationMonitorProtocol [8684] newMonitor [ConnectCall, Open, SendTimer True]"
  have p: "stationMonitorProtocol = stationMonitorProtocol \<or> stationMonitorProtocol = chiangMaiProtocol"
    by simp
  note full = handshake_steps_in_order [OF p refl, of "[8684]" exampleHandshake]
  note early = handshake_steps_in_order [OF p refl, of "[8684]" "[ConnectCall, Open, SendTimer True]"]
  have m: "phase ?c = Monitoring" by (simp add: example_run)
  have l: "last (sent ?c) \<in> set (sent ?c)" "reqId (last (sent ?c)) = 7"
    unfolding example_run by (simp_all add: stationMonitorProtocol_def buildRequest_def)
  have u: "USID ?c = Some ''u1''" by (simp add: example_run)
  from full m have a: "answered ?c = [0, 1, 2, 3, 4, 5, 6, 7]"
    "map reqId (sent ?c) = [0, 1, 2, 3, 4, 5, 6, 7]" by blast+
  from full l u have t: "reqUSID (last (sent ?c)) = Some ''u1''" by auto
  have e: "0 \<notin> set (answered ?d)" "msgId (boolResponse 7 True) \<noteq> Some 0"
    by (simp_all add: run_defs)
  with early have i: "onEvent stationMonitorProtocol [8684] ?d (Message (Some (boolResponse 7 True))) = ?d"
    by blast
  from m a l(2) t e i show ?thesis by blast
qed

text \<open>
  Claim C7, as stated, does not hold. A response with the id of the step that fails the
  predicate does not abort the handshake: the monitor goes on waiting, and the right
  response arriving afterwards lets the handshake proceed. And when the five seconds
  elapse, the handshake aborts, but nothing of the reconnection path happens: no attempt
  is counted, no reconnect timer is set, and whatever timers fire afterwards there is
  still the one socket.
\<close>

theorem handshake_abort_counterexample:
  "phase (runEvents stationMonitorProtocol [8684] newMonitor
      [ConnectCall, Open, SendTimer True, Message (Some (boolResponse 0 False))])
     = Waiting (steps stationMonitorProtocol)
   \<and> phase (runEvents stationMonitorProtocol [8684] newMonitor
      [ConnectCall, Open, SendTimer True, Message (Some (boolResponse 0 False)),
       Message (Some sessionResponse)])
     = Sending (tl (steps stationMonitorProtocol))
   \<and> runEvents stationMonitorProtocol [8684] newMonitor
      [ConnectCall, Open, SendTimer True, MessageTimer]
     = \<lparr>isConnected = True, reconnectAttempts = 0, USID = None, phase = Failed MessageTimeout,
        reconnectTimers = 0, sockets = 1,
        sent = [\<lparr>reqId = 0, reqMethod = ''comet.restoreSession'', reqUSID = None,
                 reqObjects = None\<rparr>],
        answered = []\<rparr>
   \<and> sockets (runEvents stationMonitorProtocol [8684] newMonitor
      [ConnectCall, Open, SendTimer True, MessageTimer, ReconnectTimer, SendTimer True,
       Message (Some sessionResponse), MessageTimer, ReconnectTimer]) = 1"
  by (simp add: run_defs)

lemma failed_step:
  assumes "phase c = Failed e" "reconnectTimers c = 0" "ev \<noteq> ConnectCall" "ev \<noteq> Close"
  shows "phase (onEvent p objects c ev) = Failed e \<and> sent (onEvent p objects c ev) = sent c
       \<and> sockets (onEvent p objects c ev) = sockets c
       \<and> reconnectTimers (onEvent p objects c ev) = 0"
proof (cases ev)
  case (Message mo)
  with assms show ?thesis by (cases mo) simp_all
qed (use assms in \<open>simp_all add: Let_def\<close>)

lemma failed_run:
  assumes "phase c = Failed e" "reconnectTimers c = 0" "ConnectCall \<notin> set es" "Close \<notin> set es"
  shows "phase (runEvents p objects c es) = Failed e \<and> sent (runEvents p objects c es) = sent c
       \<and> sockets (runEvents p objects c es) = sockets c
       \<and> reconnectTimers (runEvents p objects c es) = 0"
  using assms(3,4)
proof (induction es rule: rev_induct)
  case Nil
  with assms(1,2) show ?case by (simp add: runEvents_def)
next
  case (snoc ev es)
  then have ih: "phase (runEvents p objects c es) = Failed e"
    "sent (runEvents p objects c es) = sent c"
    "sockets (runEvents p objects c es) = sockets c"
    "reconnectTimers (runEvents p objects c es) = 0" by simp_all
  from snoc.prems have ne: "ev \<noteq> ConnectCall" "ev \<noteq> Close" by auto
  have "runEvents p objects c (es @ [ev]) = onEvent p objects (runEvents p objects c es) ev"
    by (simp add: runEvents_def)
  with failed_step [OF ih(1) ih(4) ne, of p objects] ih show ?case by simp
qed

text \<open>
  Claim C7, amended, for the \<open>StationMonitor\<close>. The wait of a step is bounded by a timer
  of 5000 ms. When it fires, the chain fails with the message timeout and nothing else
  changes; the failure is a value handed to the caller, who logs it. A message that fails
  the predicate of the current step is ignored and the wait goes on. A failed chain starts
  no reconnection: as long as the socket is not closed and the controller does not call
  \<open>connect()\<close>, the chain stays failed, nothing more is sent and no socket is created.
\<close>

theorem handshake_timeout_aborts:
  "messageTimeout stationMonitorProtocol = Some 5000
   \<and> (phase c = Waiting todo \<longrightarrow>
        onEvent stationMonitorProtocol objects c MessageTimer = c\<lparr>phase := Failed MessageTimeout\<rparr>)
   \<and> (phase c = Waiting (st # rest) \<and> \<not> validator (expect st) (stepId st) msg \<longrightarrow>
        onEvent p objects c (Message (Some msg)) = c)
   \<and> (phase d = Failed e \<and> reconnectTimers d = 0 \<and> ConnectCall \<notin> set es \<and> Close \<notin> set es \<longrightarrow>
        phase (runEvents p objects d es) = Failed e \<and> sent (runEvents p objects d es) = sent d
        \<and> sockets (runEvents p objects d es) = sockets d
        \<and> reconnectTimers (runEvents p objects d es) = 0)"
proof -
  have 1: "messageTimeout stationMonitorProtocol = Some 5000"
    by (simp add: stationMonitorProtocol_def)
  have 2: "onEvent stationMonitorProtocol objects c MessageTimer = c\<lparr>phase := Failed MessageTimeout\<rparr>"
    if "phase c = Waiting todo"
    using that 1 by simp
  have 3: "onEvent p objects c (Message (Some msg)) = c"
    if "phase c = Waiting (st # rest)" "\<not> validator (expect st) (stepId st) msg"
    using that by simp
  from 1 2 3 failed_run [of d e es p objects] show ?thesis by blast
qed

theorem handshake_timeout_aborts_witness:
  "phase (runEvents stationMonitorProtocol [8684] newMonitor [ConnectCall, Open, SendTimer True])
     = Waiting (steps stationMonitorProtocol)
   \<and> \<not> validator (expect (hd (steps stationMonitorProtocol)))
         (stepId (hd (steps stationMonitorProtocol))) (boolResponse 0 False)
   \<and> onEvent stationMonitorProtocol [8684]
        (runEvents stationMonitorProtocol [8684] newMonitor [ConnectCall, Open, SendTimer True])
        (Message (Some (boolResponse 0 False)))
      = runEvents stationMonitorProtocol [8684] newMonitor [ConnectCall, Open, SendTimer True]
   \<and> phase (onEvent stationMonitorProtocol [8684]
        (runEvents stationMonitorProtocol [8684] newMonitor [ConnectCall, Open, SendTimer True])
        MessageTimer) = Failed MessageTimeout
   \<and> sockets (runEvents stationMonitorProtocol [8684]
        (runEvents stationMonitorProtocol [8684] newMonitor
           [ConnectCall, Open, SendTimer True, MessageTimer])
        [ReconnectTimer, SendTimer True, Message (Some sessionResponse), MessageTimer]) = 1"
proof -
  let ?p = stationMonitorProtocol
  let ?w = "runEvents ?p [8684] newMonitor [ConnectCall, Open, SendTimer True]"
  let ?d = "runEvents ?p [8684] newMonitor [ConnectCall, Open, SendTimer True, MessageTimer]"
  let ?es = "[ReconnectTimer, SendTimer True, Message (Some sessionResponse), MessageTimer]"
  have w: "phase ?w = Waiting (steps ?p)" by (simp add: run_defs)
  have w': "phase ?w = Waiting (hd (steps ?p) # tl (steps ?p))" by (simp add: run_defs)
  have v: "\<not> validator (expect (hd (steps ?p))) (stepId (hd (steps ?p))) (boolResponse 0 False)"
    by (simp add: run_defs)
  have d: "phase ?d = Failed MessageTimeout" "reconnectTimers ?d = 0" "sockets ?d = 1"
    by (simp_all add: run_defs)
  have es: "ConnectCall \<notin> set ?es" "Close \<notin> set ?es" by simp_all
  note t = handshake_timeout_aborts [of ?w "steps ?p" "[8684]" "hd (steps ?p)" "tl (steps ?p)"
      "boolResponse 0 False" ?p ?d MessageTimeout ?es]
  from t w' v have i: "onEvent ?p [8684] ?w (Message (Some (boolResponse 0 False))) = ?w" by blast
  from t w have "onEvent ?p [8684] ?w MessageTimer = ?w\<lparr>phase := Failed MessageTimeout\<rparr>" by blast
  then have a: "phase (onEvent ?p [8684] ?w MessageTimer) = Failed MessageTimeout" by simp
  from t d es have "sockets (runEvents ?p [8684] ?d ?es) = sockets ?d" by blast
  with d have s: "sockets (runEvents ?p [8684] ?d ?es) = 1" by simp
  from w v i a s show ?thesis by blast
qed

section \<open>Reconnection\<close>

text \<open>
  Claim C4, as stated, does not hold. After exactly five closures in a row
  (\<open>maxReconnectAttempts\<close> is 5) the monitor is not at rest: the fifth closure has set a
  reconnect timer, and when it fires a sixth socket is created and the monitor is
  connecting again.
\<close>

theorem reconnect_budget_counterexample:
  "count_list fiveClosures Close = 5 \<and> Open \<notin> set fiveClosures
   \<and> maxReconnectAttempts stationMonitorProtocol = 5
   \<and> reconnectTimers (runEvents stationMonitorProtocol [8684] newMonitor
        ([ConnectCall, Open] @ fiveClosures)) = 1
   \<and> sockets (runEvents stationMonitorProtocol [8684] newMonitor
        ([ConnectCall, Open] @ fiveClosures)) = 5
   \<and> sockets (runEvents stationMonitorProtocol [8684] newMonitor
        ([ConnectCall, Open] @ fiveClosures @ [ReconnectTimer])) = 6
   \<and> phase (runEvents stationMonitorProtocol [8684] newMonitor
        ([ConnectCall, Open] @ fiveClosures @ [ReconnectTimer])) = Connecting"
  by (simp add: run_defs fiveClosures_def)

lemma attempts_step:
  assumes "e \<noteq> Open"
  shows "reconnectAttempts (onEvent p objects c e) =
           (if e = Close \<and> reconnectAttempts c < maxReconnectAttempts p
            then reconnectAttempts c + 1 else reconnectAttempts c)"
proof (cases e)
  case (Message mo)
  then show ?thesis by (cases mo) (simp_all split: phase.splits list.splits)
qed (use assms in \<open>simp_all add: connect_def handleReconnect_def split: phase.splits list.splits\<close>)

lemma scheduled_step:
  assumes "e \<noteq> ConnectCall"
  shows "reconnectTimers (onEvent p objects c e) + sockets (onEvent p objects c e) =
           reconnectTimers c + sockets c +
           (if e = Close \<and> reconnectAttempts c < maxReconnectAttempts p then 1 else 0)"
proof (cases e)
  case (Message mo)
  then show ?thesis by (cases mo) (simp_all split: phase.splits list.splits)
qed (use assms in \<open>simp_all add: connect_def handleReconnect_def Let_def split: phase.splits list.splits\<close>)

lemma reconnect_run:
  assumes "Open \<notin> set es" "ConnectCall \<notin> set es" "reconnectAttempts c \<le> maxReconnectAttempts p"
  shows "reconnectAttempts (runEvents p objects c es) =
           min (reconnectAttempts c + count_list es Close) (maxReconnectAttempts p)
       \<and> reconnectTimers (runEvents p objects c es) + sockets (runEvents p objects c es) + reconnectAttempts c =
           reconnectTimers c + sockets c + 
           min (reconnectAttempts c + count_list es Close) (maxReconnectAttempts p)"
  using assms(1,2)
proof (induction es rule: rev_induct)
  case Nil
  with assms(3) show ?case by (simp add: runEvents_def)
next
  case (snoc e es)
  let ?c = "runEvents p objects c es"
  from snoc have ih: "reconnectAttempts ?c =
           min (reconnectAttempts c + count_list es Close) (maxReconnectAttempts p)"
    "reconnectTimers ?c + sockets ?c + reconnectAttempts c =
           reconnectTimers c + sockets c +
           min (reconnectAttempts c + count_list es Close) (maxReconnectAttempts p)" by simp_all
  from snoc.prems have ne: "e \<noteq> Open" "e \<noteq> ConnectCall" by auto
  have r: "runEvents p objects c (es @ [e]) = onEvent p objects ?c e"
    by (simp add: runEvents_def)
  show ?case
    unfolding r using attempts_step [OF ne(1), of p objects ?c] scheduled_step [OF ne(2), of p objects ?c] ih
    by (auto simp: min_def)
qed

text \<open>
  Claim C4, amended. The budget counts reconnect attempts. From a counter of 0, while no
  socket opens, \<open>n\<close> closures in a row leave the counter at the smaller of \<open>n\<close> and
  \<open>maxReconnectAttempts\<close>, and that many reconnect attempts have been scheduled in all:
  each of the first \<open>maxReconnectAttempts\<close> closures schedules one, every later closure
  none. With the counter at \<open>maxReconnectAttempts\<close> a closure only marks the monitor as
  not connected. An \<open>open\<close> sets the counter back to 0.
\<close>

theorem reconnect_budget:
  assumes "reconnectAttempts c = 0" "Open \<notin> set es" "ConnectCall \<notin> set es"
    and "c' = runEvents p objects c es"
  shows "reconnectAttempts c' = min (count_list es Close) (maxReconnectAttempts p)
       \<and> reconnectTimers c' + sockets c' =
           reconnectTimers c + sockets c + min (count_list es Close) (maxReconnectAttempts p)
       \<and> (reconnectAttempts c' = maxReconnectAttempts p \<longrightarrow>
            onEvent p objects c' Close = c'\<lparr>isConnected := False\<rparr>)
       \<and> reconnectAttempts (onEvent p objects c' Open) = 0
       \<and> isConnected (onEvent p objects c' Open)"
proof -
  from assms(1) have "reconnectAttempts c \<le> maxReconnectAttempts p" by simp
  from reconnect_run [OF assms(2,3) this, of objects] assms(1,4)
  have 1: "reconnectAttempts c' = min (count_list es Close) (maxReconnectAttempts p)"
    and 2: "reconnectTimers c' + sockets c' =
           reconnectTimers c + sockets c + min (count_list es Close) (maxReconnectAttempts p)"
    by simp_all
  have 3: "onEvent p objects c' Close = c'\<lparr>isConnected := False\<rparr>"
    if "reconnectAttempts c' = maxReconnectAttempts p"
    using that by (simp add: handleReconnect_def)
  have 4: "reconnectAttempts (onEvent p objects c' Open) = 0 \<and> isConnected (onEvent p objects c' Open)"
    by (simp add: Let_def)
  from 1 2 3 4 show ?thesis by blast
qed

theorem reconnect_budget_witness:
  "reconnectAttempts (runEvents stationMonitorProtocol [8684] newMonitor [ConnectCall, Open]) = 0
   \<and> Open \<notin> set (fiveClosures @ [ReconnectTimer, Error, Close])
   \<and> ConnectCall \<notin> set (fiveClosures @ [ReconnectTimer, Error, Close])
   \<and> count_list (fiveClosures @ [ReconnectTimer, Error, Close]) Close = 6
   \<and> reconnectAttempts (runEvents stationMonitorProtocol [8684]
        (runEvents stationMonitorProtocol [8684] newMonitor [ConnectCall, Open])
        (fiveClosures @ [ReconnectTimer, Error, Close])) = 5
   \<and> reconnectTimers (runEvents stationMonitorProtocol [8684]
        (runEvents stationMonitorProtocol [8684] newMonitor [ConnectCall, Open])
        (fiveClosures @ [ReconnectTimer, Error, Close]))
      + sockets (runEvents stationMonitorProtocol [8684]
        (runEvents stationMonitorProtocol [8684] newMonitor [ConnectCall, Open])
        (fiveClosures @ [ReconnectTimer, Error, Close])) = 6
   \<and> reconnectTimers (onEvent stationMonitorProtocol [8684]
        (runEvents stationMonitorProtocol [8684]
          (runEvents stationMonitorProtocol [8684] newMonitor [ConnectCall, Open])
          (fiveClosures @ [ReconnectTimer, Error, Close])) Close)
      = reconnectTimers (runEvents stationMonitorProtocol [8684]
          (runEvents stationMonitorProtocol [8684] newMonitor [ConnectCall, Open])
          (fiveClosures @ [ReconnectTimer, Error, Close]))"
proof -
  let ?p = stationMonitorProtocol
  let ?c = "runEvents ?p [8684] newMonitor [ConnectCall, Open]"
  let ?es = "fiveClosures @ [ReconnectTimer, Error, Close]"
  let ?c' = "runEvents ?p [8684] ?c ?es"
  have h1: "reconnectAttempts ?c = 0" and s: "reconnectTimers ?c + sockets ?c = 1"
    by (simp_all add: run_defs)
  have h2: "Open \<notin> set ?es" and h3: "ConnectCall \<notin> set ?es"
    and n: "count_list ?es Close = 6"
    by (simp_all add: fiveClosures_def)
  have mx: "maxReconnectAttempts ?p = 5" by (simp add: stationMonitorProtocol_def)
  note b = reconnect_budget [OF h1 h2 h3 refl, of ?p "[8684]"]
  from b n mx have a: "reconnectAttempts ?c' = 5" by simp
  from b n mx s have t: "reconnectTimers ?c' + sockets ?c' = 6" by simp
  from b a mx have "onEvent ?p [8684] ?c' Close = ?c'\<lparr>isConnected := False\<rparr>" by simp
  then have z: "reconnectTimers (onEvent ?p [8684] ?c' Close) = reconnectTimers ?c'" by simp
  from h1 h2 h3 n a t z show ?thesis by blast
qed

section \<open>The HTTP poller\<close>

lemma onInterval_rejected:
  assumes "isRunning a" "fetchInterval a" "fetched t = Rejected" "Suc (errorCount a) < maxErrors"
  shows "onInterval js a t =
           a\<lparr>errorCount := Suc (errorCount a),
             console := console a @ [FetchFailed (Suc (errorCount a))]\<rparr>"
  using assms by (simp add: onInterval_def fetchAndProcess_def Let_def)

lemma onInterval_last:
  assumes "isRunning a" "fetchInterval a" "fetched t = Rejected" "Suc (errorCount a) = maxErrors"
  shows "onInterval js a t =
           a\<lparr>isRunning := False, fetchInterval := False, errorCount := maxErrors,
             console := console a @ [FetchFailed maxErrors, MaxErrorsReached, FetchingStopped]\<rparr>"
  using assms by (simp add: onInterval_def fetchAndProcess_def stop_def Let_def)

lemma onInterval_stopped: "\<not> isRunning a \<Longrightarrow> onInterval js a t = a"
  by (simp add: onInterval_def)

lemma poll_stopped: "\<not> isRunning a \<Longrightarrow> poll js a ts = a"
  unfolding poll_def by (induction ts) (simp_all add: onInterval_stopped)

lemma poll_snoc: "poll js a (ts @ [t]) = onInterval js (poll js a ts) t"
  by (simp add: poll_def)

lemma poll_below:
  assumes "isRunning a" "fetchInterval a" "errorCount a = 0"
  shows "\<forall>t \<in> set ts. fetched t = Rejected \<Longrightarrow> length ts < maxErrors \<Longrightarrow>
         poll js a ts = a\<lparr>errorCount := length ts,
                          console := console a @ map FetchFailed [1..<Suc (length ts)]\<rparr>"
proof (induction ts rule: rev_induct)
  case Nil
  with assms show ?case by (simp add: poll_def)
next
  case (snoc t ts)
  let ?b = "a\<lparr>errorCount := length ts, console := console a @ map FetchFailed [1..<Suc (length ts)]\<rparr>"
  from snoc have ih: "poll js a ts = ?b" by simp
  from snoc.prems have t: "fetched t = Rejected" and l: "Suc (length ts) < maxErrors" by simp_all
  have "onInterval js ?b t =
           ?b\<lparr>errorCount := Suc (errorCount ?b),
             console := console ?b @ [FetchFailed (Suc (errorCount ?b))]\<rparr>"
    using assms t l by (intro onInterval_rejected) simp_all
  then show ?case by (simp add: poll_snoc ih)
qed

lemma poll_exactly:
  assumes "isRunning a" "fetchInterval a" "errorCount a = 0"
    and "\<forall>t \<in> set ts. fetched t = Rejected" "length ts = maxErrors"
  shows "poll js a ts =
           a\<lparr>isRunning := False, fetchInterval := False, errorCount := maxErrors,
             console := console a @ map FetchFailed [1..<Suc maxErrors]
                          @ [MaxErrorsReached, FetchingStopped]\<rparr>"
proof -
  from assms(5) obtain us t where ts: "ts = us @ [t]" and len: "Suc (length us) = maxErrors"
    by (cases ts rule: rev_cases) (auto simp: maxErrors_def)
  let ?b = "a\<lparr>errorCount := length us, console := console a @ map FetchFailed [1..<Suc (length us)]\<rparr>"
  from ts len assms(4) have "\<forall>t \<in> set us. fetched t = Rejected" "length us < maxErrors"
    and t: "fetched t = Rejected" by auto
  with poll_below [OF assms(1-3), of us js] have b: "poll js a us = ?b" by simp
  have "onInterval js ?b t =
           ?b\<lparr>isRunning := False, fetchInterval := False, errorCount := maxErrors,
             console := console ?b @ [FetchFailed maxErrors, MaxErrorsReached, FetchingStopped]\<rparr>"
    using assms(1,2) len t by (intro onInterval_last) simp_all
  moreover have "map FetchFailed [1..<Suc maxErrors] =
      map FetchFailed [1..<Suc (length us)] @ [FetchFailed maxErrors]"
    unfolding len [symmetric] by simp
  ultimately show ?thesis by (simp add: poll_snoc ts b)
qed

text \<open>
  Claim C9. A running poller with no error counted: fewer than \<open>maxErrors\<close> failed
  fetches in a row are only counted and logged, the timer stays set and the next tick
  fetches again; the failure that brings the count to \<open>maxErrors\<close> stops the poller,
  which reports it, and later ticks do nothing; a fetch that succeeds and is processed sets
  the count back to 0.
\<close>

theorem poller_failure_budget:
  assumes "isRunning a" "fetchInterval a" "errorCount a = 0"
    and "\<forall>t \<in> set ts. fetched t = Rejected"
  shows "(length ts < maxErrors \<longrightarrow>
            poll js a ts = a\<lparr>errorCount := length ts,
                             console := console a @ map FetchFailed [1..<Suc (length ts)]\<rparr>)
       \<and> (length ts = maxErrors \<longrightarrow>
            poll js a (ts @ us) =
              a\<lparr>isRunning := False, fetchInterval := False, errorCount := maxErrors,
                console := console a @ map FetchFailed [1..<Suc maxErrors]
                             @ [MaxErrorsReached, FetchingStopped]\<rparr>)
       \<and> (length ts < maxErrors \<and> fetched t = Resolved (Object obj) \<and> \<not> processThrows t \<longrightarrow>
            errorCount (onInterval js (poll js a ts) t) = 0
            \<and> isRunning (onInterval js (poll js a ts) t)
            \<and> fetchInterval (onInterval js (poll js a ts) t)
            \<and> lastData (onInterval js (poll js a ts) t) = Some (transformApiData js obj))"
proof -
  have 1: "poll js a ts = a\<lparr>errorCount := length ts,
                             console := console a @ map FetchFailed [1..<Suc (length ts)]\<rparr>"
    if "length ts < maxErrors"
    using poll_below [OF assms(1-3) assms(4) that] .
  have 2: "poll js a (ts @ us) =
              a\<lparr>isRunning := False, fetchInterval := False, errorCount := maxErrors,
                console := console a @ map FetchFailed [1..<Suc maxErrors]
                             @ [MaxErrorsReached, FetchingStopped]\<rparr>"
    if "length ts = maxErrors"
  proof -
    have "poll js a (ts @ us) = poll js (poll js a ts) us" by (simp add: poll_def)
    also have "\<dots> = poll js a ts"
      by (rule poll_stopped) (simp add: poll_exactly [OF assms that])
    finally show ?thesis by (simp add: poll_exactly [OF assms that])
  qed
  have 3: "errorCount (onInterval js (poll js a ts) t) = 0
            \<and> isRunning (onInterval js (poll js a ts) t)
            \<and> fetchInterval (onInterval js (poll js a ts) t)
            \<and> lastData (onInterval js (poll js a ts) t) = Some (transformApiData js obj)"
    if "length ts < maxErrors" "fetched t = Resolved (Object obj)" "\<not> processThrows t"
    using that assms(1,2)
    by (simp add: 1 onInterval_def fetchAndProcess_def processApiData_def)
  from 1 2 3 show ?thesis by blast
qed

theorem poller_failure_budget_witness:
  "isRunning exampleFetcher \<and> fetchInterval exampleFetcher \<and> errorCount exampleFetcher = 0
   \<and> fetched (rejectedTick 0) = Rejected
   \<and> length [rejectedTick 0, rejectedTick 10000] < maxErrors
   \<and> length [rejectedTick 0, rejectedTick 10000, rejectedTick 20000, rejectedTick 30000,
        rejectedTick 40000] = maxErrors
   \<and> errorCount (poll exampleBuiltins exampleFetcher [rejectedTick 0, rejectedTick 10000]) = 2
   \<and> isRunning (poll exampleBuiltins exampleFetcher [rejectedTick 0, rejectedTick 10000])
   \<and> \<not> isRunning (poll exampleBuiltins exampleFetcher
        ([rejectedTick 0, rejectedTick 10000, rejectedTick 20000, rejectedTick 30000,
          rejectedTick 40000] @ [rejectedTick 50000]))
   \<and> console (poll exampleBuiltins exampleFetcher
        ([rejectedTick 0, rejectedTick 10000, rejectedTick 20000, rejectedTick 30000,
          rejectedTick 40000] @ [rejectedTick 50000]))
      = [FetchFailed 1, FetchFailed 2, FetchFailed 3, FetchFailed 4, FetchFailed 5,
         MaxErrorsReached, FetchingStopped]
   \<and> errorCount (onInterval exampleBuiltins
        (poll exampleBuiltins exampleFetcher [rejectedTick 0, rejectedTick 10000])
        (resolvedTick 20000 [(''mux1'', JNumber 7)])) = 0"
proof -
  let ?a = exampleFetcher
  let ?two = "[rejectedTick 0, rejectedTick 10000]"
  let ?five = "[rejectedTick 0, rejectedTick 10000, rejectedTick 20000, rejectedTick 30000,
        rejectedTick 40000]"
  let ?ok = "resolvedTick 20000 [(''mux1'', JNumber 7)]"
  have a: "isRunning ?a" "fetchInterval ?a" "errorCount ?a = 0" "console ?a = []"
    by (simp_all add: exampleFetcher_def)
  have r: "fetched (rejectedTick 0) = Rejected" by (simp add: rejectedTick_def)
  have r2: "\<forall>t \<in> set ?two. fetched t = Rejected" and r5: "\<forall>t \<in> set ?five. fetched t = Rejected"
    by (simp_all add: rejectedTick_def)
  have l2: "length ?two < maxErrors" and l5: "length ?five = maxErrors"
    by (simp_all add: maxErrors_def)
  have ok: "fetched ?ok = Resolved (Object [(''mux1'', JNumber 7)])" "\<not> processThrows ?ok"
    by (simp_all add: resolvedTick_def)
  note b2 = poller_failure_budget [OF a(1-3) r2, of exampleBuiltins "[]" ?ok "[(''mux1'', JNumber 7)]"]
  note b5 = poller_failure_budget [OF a(1-3) r5, of exampleBuiltins "[rejectedTick 50000]"]
  from b2 l2 have p2: "poll exampleBuiltins ?a ?two =
      ?a\<lparr>errorCount := length ?two, console := console ?a @ map FetchFailed [1..<Suc (length ?two)]\<rparr>"
    by blast
  from p2 a have e2: "errorCount (poll exampleBuiltins ?a ?two) = 2"
    "isRunning (poll exampleBuiltins ?a ?two)" by simp_all
  from b5 l5 have p5: "poll exampleBuiltins ?a (?five @ [rejectedTick 50000]) =
      ?a\<lparr>isRunning := False, fetchInterval := False, errorCount := maxErrors,
                console := console ?a @ map FetchFailed [1..<Suc maxErrors]
                             @ [MaxErrorsReached, FetchingStopped]\<rparr>"
    by blast
  from p5 have s5: "\<not> isRunning (poll exampleBuiltins ?a (?five @ [rejectedTick 50000]))" by simp
  have "map FetchFailed [1..<Suc maxErrors] =
      [FetchFailed 1, FetchFailed 2, FetchFailed 3, FetchFailed 4, FetchFailed 5]"
    by (simp add: maxErrors_def upt_rec)
  with p5 a(4) have c5: "console (poll exampleBuiltins ?a (?five @ [rejectedTick 50000])) =
      [FetchFailed 1, FetchFailed 2, FetchFailed 3, FetchFailed 4, FetchFailed 5,
         MaxErrorsReached, FetchingStopped]" by simp
  from b2 l2 ok have z: "errorCount (onInterval exampleBuiltins (poll exampleBuiltins ?a ?two) ?ok) = 0"
    by blast
  from a(1-3) r l2 l5 e2 s5 c5 z show ?thesis by blast
qed

end
